theory Spec2Isabelle
  imports Complex_Main "HOL-Library.Char_ord" "HOL-Library.List_Lexorder"
    "HOL-Library.State_Monad"
begin

section \<open>The graph of logistica\_nx\<close>

text \<open>
  A city is a Python string. An edge of the NetworkX digraph carries an attribute
  dictionary with the five keys \<open>normal\<close>, \<open>rain\<close>, \<open>snow\<close>, \<open>storm\<close> and
  \<open>weight\<close>; every edge the class creates has all five (graph.py, lines 46-51 and
  147-152), so the dictionary is a record. Python floats are read as real numbers:
  rounding, infinities and NaN are outside the model.
\<close>

type_synonym node = string

record attrs =
  normal :: real
  rain :: real
  snow :: real
  storm :: real
  weight :: real

text \<open>\<open>attrs[key]\<close>: \<open>None\<close> is Python's KeyError.\<close>

definition lookup_attr :: "attrs \<Rightarrow> string \<Rightarrow> real option" where
  "lookup_attr a k =
     (if k = ''normal'' then Some (normal a)
      else if k = ''rain'' then Some (rain a)
      else if k = ''snow'' then Some (snow a)
      else if k = ''storm'' then Some (storm a)
      else if k = ''weight'' then Some (weight a)
      else None)"

text \<open>
  \<open>nx.DiGraph\<close>: the nodes in insertion order (the keys of a dictionary) and the
  adjacency \<open>graph[u][v]\<close>, a partial map from ordered pairs to attribute dictionaries.
\<close>

record digraph =
  nodes :: "node list"
  adj :: "node \<times> node \<Rightarrow> attrs option"

definition empty_digraph :: digraph where
  "empty_digraph = \<lparr>nodes = [], adj = (\<lambda>e. None)\<rparr>"

definition has_node :: "digraph \<Rightarrow> node \<Rightarrow> bool" where
  "has_node g n = (n \<in> set (nodes g))"

definition add_node :: "digraph \<Rightarrow> node \<Rightarrow> digraph" where
  "add_node g n = (if n \<in> set (nodes g) then g else g\<lparr>nodes := nodes g @ [n]\<rparr>)"

definition has_edge :: "digraph \<Rightarrow> node \<Rightarrow> node \<Rightarrow> bool" where
  "has_edge g u v = (adj g (u, v) \<noteq> None)"

text \<open>\<open>add_edge(u, v, **attr)\<close> with all five keys given: creates the endpoints
  and replaces the attributes of an existing edge.\<close>

definition add_edge :: "digraph \<Rightarrow> node \<Rightarrow> node \<Rightarrow> attrs \<Rightarrow> digraph" where
  "add_edge g u v a = (add_node (add_node g u) v)\<lparr>adj := (adj g)((u, v) \<mapsto> a)\<rparr>"

definition remove_edge :: "digraph \<Rightarrow> node \<Rightarrow> node \<Rightarrow> digraph" where
  "remove_edge g u v = g\<lparr>adj := (adj g)((u, v) := None)\<rparr>"

datatype py_error = KeyError | ValueError | NetworkXPointlessConcept

subsection \<open>class LogisticaGraph\<close>

record logistica_graph =
  graph :: digraph
  current_weather :: string

definition init_graph :: logistica_graph where
  "init_graph = \<lparr>graph = empty_digraph, current_weather = ''normal''\<rparr>"

definition valid_weather :: "string list" where
  "valid_weather = [''normal'', ''rain'', ''snow'', ''storm'']"

text \<open>
  The body of the loop of \<open>set_weather\<close> (graph.py, line 104):
  \<open>self.graph[u][v]['weight'] = attrs[weather_type]\<close>. The KeyError branch is not
  reached from \<open>set_weather\<close>, which tests the name against \<open>valid_weather\<close> first.
\<close>

definition assign_weight :: "string \<Rightarrow> attrs \<Rightarrow> attrs" where
  "assign_weight w a = (case lookup_attr a w of Some x \<Rightarrow> a\<lparr>weight := x\<rparr> | None \<Rightarrow> a)"

text \<open>\<open>set_weather\<close> (graph.py, lines 85-107): the returned flag and the object
  after the call. Console output is not part of the model.\<close>

definition set_weather :: "logistica_graph \<Rightarrow> string \<Rightarrow> bool \<times> logistica_graph" where
  "set_weather lg weather_type =
     (if weather_type \<notin> set valid_weather then (False, lg)
      else (True, lg\<lparr>current_weather := weather_type,
                      graph := (graph lg)\<lparr>adj := (\<lambda>e. map_option (assign_weight weather_type)
                                                       (adj (graph lg) e))\<rparr>\<rparr>))"

definition add_city :: "logistica_graph \<Rightarrow> node \<Rightarrow> bool \<times> logistica_graph" where
  "add_city lg city_name =
     (if city_name \<in> set (nodes (graph lg)) then (False, lg)
      else (True, lg\<lparr>graph := add_node (graph lg) city_name\<rparr>))"

text \<open>
  \<open>add_connection\<close> (graph.py, lines 127-155). \<open>times'\<close> is the Python dictionary \<open>times\<close>; a
  missing key raises KeyError while the arguments of \<open>add_edge\<close> are evaluated, after
  the two cities have been added.
\<close>

definition add_connection ::
  "logistica_graph \<Rightarrow> node \<Rightarrow> node \<Rightarrow> (string \<Rightarrow> real option) \<Rightarrow> (py_error + bool) \<times> logistica_graph"
where
  "add_connection lg from_city to_city times' =
     (let lg1 = (if from_city \<notin> set (nodes (graph lg)) then snd (add_city lg from_city) else lg);
          lg2 = (if to_city \<notin> set (nodes (graph lg1)) then snd (add_city lg1 to_city) else lg1)
      in case times' ''normal'' of None \<Rightarrow> (Inl KeyError, lg2) | Some n \<Rightarrow>
         (case times' ''rain'' of None \<Rightarrow> (Inl KeyError, lg2) | Some r \<Rightarrow>
         (case times' ''snow'' of None \<Rightarrow> (Inl KeyError, lg2) | Some s \<Rightarrow>
         (case times' ''storm'' of None \<Rightarrow> (Inl KeyError, lg2) | Some t \<Rightarrow>
         (case times' (current_weather lg2) of None \<Rightarrow> (Inl KeyError, lg2) | Some w \<Rightarrow>
            (Inr True,
             lg2\<lparr>graph := add_edge (graph lg2) from_city to_city
                     \<lparr>normal = n, rain = r, snow = s, storm = t, weight = w\<rparr>\<rparr>))))))"

definition remove_connection :: "logistica_graph \<Rightarrow> node \<Rightarrow> node \<Rightarrow> bool \<times> logistica_graph" where
  "remove_connection lg from_city to_city =
     (if from_city \<notin> set (nodes (graph lg)) \<or> to_city \<notin> set (nodes (graph lg)) then (False, lg)
      else if \<not> has_edge (graph lg) from_city to_city then (False, lg)
      else (True, lg\<lparr>graph := remove_edge (graph lg) from_city to_city\<rparr>))"

text \<open>
  \<open>load_from_file\<close> (graph.py, lines 17-61). A line is given by its fields
  \<open>line.strip().split()\<close>; \<open>pyfloat\<close> is Python's \<open>float\<close> on a string, \<open>None\<close>
  its ValueError. One record: the body of the loop, lines 30-51.
\<close>

definition load_record ::
  "(string \<Rightarrow> real option) \<Rightarrow> digraph \<Rightarrow> string list \<Rightarrow> py_error + digraph"
where
  "load_record pyfloat g parts =
     (if length parts \<ge> 6 then
        (let from_city = parts ! 0; to_city = parts ! 1 in
         case pyfloat (parts ! 2) of None \<Rightarrow> Inl ValueError | Some normal_time \<Rightarrow>
         (case pyfloat (parts ! 3) of None \<Rightarrow> Inl ValueError | Some rain_time \<Rightarrow>
         (case pyfloat (parts ! 4) of None \<Rightarrow> Inl ValueError | Some snow_time \<Rightarrow>
         (case pyfloat (parts ! 5) of None \<Rightarrow> Inl ValueError | Some storm_time \<Rightarrow>
            Inr (add_edge (add_node (add_node g from_city) to_city) from_city to_city
                   \<lparr>normal = normal_time, rain = rain_time, snow = snow_time,
                    storm = storm_time, weight = normal_time\<rparr>)))))
      else Inr g)"

text \<open>The loop over the lines: an exception leaves the records read so far in the
  graph and makes the method return \<open>False\<close>.\<close>

fun load_records ::
  "(string \<Rightarrow> real option) \<Rightarrow> digraph \<Rightarrow> string list list \<Rightarrow> bool \<times> digraph"
where
  "load_records pyfloat g [] = (True, g)"
| "load_records pyfloat g (parts # rest) =
     (case load_record pyfloat g parts of
        Inl e \<Rightarrow> (False, g)
      | Inr g' \<Rightarrow> load_records pyfloat g' rest)"

text \<open>The file is \<open>None\<close> when it cannot be opened (FileNotFoundError).\<close>

definition load_from_file ::
  "(string \<Rightarrow> real option) \<Rightarrow> logistica_graph \<Rightarrow> string list list option \<Rightarrow> bool \<times> logistica_graph"
where
  "load_from_file pyfloat lg file =
     (case file of
        None \<Rightarrow> (False, lg)
      | Some lines \<Rightarrow>
          (let r = load_records pyfloat (graph lg) lines
           in (fst r, lg\<lparr>graph := snd r\<rparr>)))"

text \<open>
  Python's \<open>float\<close> on a decimal literal, after its grammar: an optional sign, digits
  with single underscores between them, an optional fraction and an optional exponent.
  The values are the exact reals. The spellings of infinity and NaN, which \<open>float\<close> also
  reads, have no real value and are outside the model, as are digits beyond ASCII.
\<close>

definition is_digit :: "char \<Rightarrow> bool" where
  "is_digit c \<longleftrightarrow> CHR ''0'' \<le> c \<and> c \<le> CHR ''9''"

definition digit_of :: "char \<Rightarrow> nat" where
  "digit_of c = of_char c - of_char (CHR ''0'')"

text \<open>\<open>digitpart ::= digit (["_"] digit)*\<close>, read from the left with the value so far.\<close>

fun digitpart :: "string \<Rightarrow> nat \<Rightarrow> nat option" where
  "digitpart [] acc = None"
| "digitpart [c] acc = (if is_digit c then Some (10 * acc + digit_of c) else None)"
| "digitpart (c # d # cs) acc =
     (if is_digit c then
        (if d = CHR ''_'' then digitpart cs (10 * acc + digit_of c)
         else digitpart (d # cs) (10 * acc + digit_of c))
      else None)"

text \<open>An optional sign: whether it is a minus, and the rest.\<close>

definition signed :: "string \<Rightarrow> bool \<times> string" where
  "signed s =
     (case s of
        [] \<Rightarrow> (False, [])
      | c # r \<Rightarrow> if c = CHR ''-'' then (True, r) else if c = CHR ''+'' then (False, r) else (False, s))"

text \<open>\<open>digitpart\<close>, \<open>digitpart "."\<close>, \<open>"." digitpart\<close> or \<open>digitpart "." digitpart\<close>.\<close>

definition mantissa :: "string \<Rightarrow> real option" where
  "mantissa m =
     (let ip = takeWhile (\<lambda>c. c \<noteq> CHR ''.'') m;
          fr = dropWhile (\<lambda>c. c \<noteq> CHR ''.'') m
      in if fr = [] then map_option real (digitpart ip 0)
         else if tl fr = [] then map_option real (digitpart ip 0)
         else (case digitpart (tl fr) 0 of
                 None \<Rightarrow> None
               | Some f \<Rightarrow>
                   if ip = [] then Some (real f / 10 ^ length (filter is_digit (tl fr)))
                   else map_option (\<lambda>i. real i + real f / 10 ^ length (filter is_digit (tl fr)))
                          (digitpart ip 0)))"

definition exponent :: "string \<Rightarrow> int option" where
  "exponent e =
     map_option (\<lambda>n. if fst (signed e) then - int n else int n) (digitpart (snd (signed e)) 0)"

definition float_of_digits :: "string \<Rightarrow> real option" where
  "float_of_digits s =
     (let body = snd (signed s);
          m = takeWhile (\<lambda>c. c \<noteq> CHR ''e'' \<and> c \<noteq> CHR ''E'') body;
          ex = dropWhile (\<lambda>c. c \<noteq> CHR ''e'' \<and> c \<noteq> CHR ''E'') body
      in case mantissa m of
           None \<Rightarrow> None
         | Some v \<Rightarrow>
             (case (if ex = [] then Some 0 else exponent (tl ex)) of
                None \<Rightarrow> None
              | Some k \<Rightarrow>
                  Some ((if fst (signed s) then - v else v) *
                        (if 0 \<le> k then 10 ^ nat k else 1 / 10 ^ nat (- k)))))"

text \<open>
  The invariant of the data model: the weather selection is one of the four profiles and
  the active weight of every edge is its value for that profile.
\<close>

definition weights_consistent :: "logistica_graph \<Rightarrow> bool" where
  "weights_consistent lg \<longleftrightarrow>
     current_weather lg \<in> set valid_weather \<and>
     (\<forall>u v a. adj (graph lg) (u, v) = Some a \<longrightarrow>
        lookup_attr a (current_weather lg) = Some (weight a))"

section \<open>algorithms.py: the shortest path\<close>

text \<open>\<open>graph[u][v]['weight']\<close>: KeyError when the edge is absent.\<close>

definition edge_weight :: "digraph \<Rightarrow> node \<Rightarrow> node \<Rightarrow> py_error + real" where
  "edge_weight g u v = (case adj g (u, v) of None \<Rightarrow> Inl KeyError | Some a \<Rightarrow> Inr (weight a))"

text \<open>
  The loop of lines 31-33: \<open>for i in range(len(path) - 1): total_distance +=
  graph[path[i]][path[i+1]]['weight']\<close>, from index \<open>i\<close> with the running total.
\<close>

function path_cost_loop :: "digraph \<Rightarrow> node list \<Rightarrow> nat \<Rightarrow> real \<Rightarrow> py_error + real" where
  "path_cost_loop g path i total_distance =
     (if i < length path - 1 then
        (case edge_weight g (path ! i) (path ! (i + 1)) of
           Inl e \<Rightarrow> Inl e
         | Inr w \<Rightarrow> path_cost_loop g path (i + 1) (total_distance + w))
      else Inr total_distance)"
  by pat_completeness auto
termination
  by (relation "measure (\<lambda>(g, path, i, t). length path - 1 - i)") auto

declare path_cost_loop.simps [simp del]

text \<open>
  \<open>shortest_path\<close> (algorithms.py, lines 10-39). The library routine
  \<open>nx.shortest_path(graph, source, target, weight='weight')\<close> is a parameter: it returns
  a list of nodes, or \<open>None\<close> when it raises NetworkXNoPath, the one exception the
  function catches (both nodes are known to be in the graph when it is called). The
  result is the returned pair; \<open>Inl\<close> is an exception that leaves the function.
\<close>

definition shortest_path ::
  "(digraph \<Rightarrow> node \<Rightarrow> node \<Rightarrow> node list option) \<Rightarrow> digraph \<Rightarrow> node \<Rightarrow> node
     \<Rightarrow> py_error + (node list option \<times> real option)"
where
  "shortest_path nx_shortest_path g start end' =
     (if start \<notin> set (nodes g) \<or> end' \<notin> set (nodes g) then Inr (None, None)
      else case nx_shortest_path g start end' of
             None \<Rightarrow> Inr (None, None)
           | Some path \<Rightarrow>
               (case path_cost_loop g path 0 0 of
                  Inl e \<Rightarrow> Inl e
                | Inr total_distance \<Rightarrow> Inr (Some path, Some total_distance)))"

subsection \<open>Paths, and what the library routine promises\<close>

definition active_weight :: "digraph \<Rightarrow> node \<Rightarrow> node \<Rightarrow> real" where
  "active_weight g u v = (case adj g (u, v) of Some a \<Rightarrow> weight a | None \<Rightarrow> 0)"

fun path_weight :: "digraph \<Rightarrow> node list \<Rightarrow> real" where
  "path_weight g (u # v # rest) = active_weight g u v + path_weight g (v # rest)"
| "path_weight g p = 0"

fun is_walk :: "digraph \<Rightarrow> node list \<Rightarrow> bool" where
  "is_walk g [] = True"
| "is_walk g [u] = True"
| "is_walk g (u # v # rest) = (has_edge g u v \<and> is_walk g (v # rest))"

definition is_path :: "digraph \<Rightarrow> node \<Rightarrow> node \<Rightarrow> node list \<Rightarrow> bool" where
  "is_path g s t p \<longleftrightarrow> p \<noteq> [] \<and> hd p = s \<and> last p = t \<and> is_walk g p"

text \<open>
  The documented behaviour of \<open>nx.shortest_path\<close> at one call: a path from the source to
  the target of least total weight, or NetworkXNoPath when there is none.
\<close>

definition nx_shortest_path_ok ::
  "(digraph \<Rightarrow> node \<Rightarrow> node \<Rightarrow> node list option) \<Rightarrow> digraph \<Rightarrow> node \<Rightarrow> node \<Rightarrow> bool"
where
  "nx_shortest_path_ok nx_shortest_path g s t \<longleftrightarrow>
     (case nx_shortest_path g s t of
        None \<Rightarrow> \<not> (\<exists>p. is_path g s t p)
      | Some p \<Rightarrow> is_path g s t p \<and> (\<forall>q. is_path g s t q \<longrightarrow> path_weight g p \<le> path_weight g q))"

text \<open>
  An executable stand-in for the library routine, by exhaustive search over the simple
  paths: it instantiates the theorems at concrete graphs.
\<close>

definition successors :: "digraph \<Rightarrow> node \<Rightarrow> node list" where
  "successors g u = filter (\<lambda>v. has_edge g u v) (nodes g)"

fun simple_paths :: "nat \<Rightarrow> digraph \<Rightarrow> node list \<Rightarrow> node \<Rightarrow> node \<Rightarrow> node list list" where
  "simple_paths 0 g seen s t = (if s = t then [[s]] else [])"
| "simple_paths (Suc k) g seen s t =
     (if s = t then [[s]]
      else concat (map (\<lambda>v. map ((#) s) (simple_paths k g (s # seen) v t))
                       (filter (\<lambda>v. v \<notin> set (s # seen)) (successors g s))))"

fun lightest :: "digraph \<Rightarrow> node list \<Rightarrow> node list list \<Rightarrow> node list" where
  "lightest g best [] = best"
| "lightest g best (p # ps) =
     lightest g (if path_weight g p < path_weight g best then p else best) ps"

definition ref_shortest_path :: "digraph \<Rightarrow> node \<Rightarrow> node \<Rightarrow> node list option" where
  "ref_shortest_path g s t =
     (case simple_paths (length (nodes g)) g [] s t of
        [] \<Rightarrow> None
      | p # ps \<Rightarrow> Some (lightest g p ps))"

subsection \<open>The graphs of the tests\<close>

text \<open>The fixture of test\_graph.py (lines 22-29), and the same graph after
  \<open>set_weather("rain")\<close>.\<close>

definition scenario_file :: "string list list" where
  "scenario_file =
     [[''A'', ''B'', ''5'', ''8'', ''10'', ''15''],
      [''B'', ''C'', ''3'', ''4'', ''6'', ''9''],
      [''C'', ''D'', ''2'', ''3'', ''5'', ''8''],
      [''A'', ''D'', ''15'', ''20'', ''25'', ''30'']]"

definition scenario :: logistica_graph where
  "scenario = snd (load_from_file float_of_digits init_graph (Some scenario_file))"

definition scenario_rain :: logistica_graph where
  "scenario_rain = snd (set_weather scenario ''rain'')"

text \<open>The edges of the fixture, whatever the weights.\<close>

definition diamond :: "digraph \<Rightarrow> bool" where
  "diamond g \<longleftrightarrow> (\<forall>u v. has_edge g u v \<longleftrightarrow>
      (u, v) \<in> {(''A'', ''B''), (''B'', ''C''), (''C'', ''D''), (''A'', ''D'')})"





text \<open>Two cities and no connection.\<close>

definition two_cities :: digraph where
  "two_cities = graph (snd (add_city (snd (add_city init_graph ''A'')) ''B''))"

section \<open>algorithms.py: the adjacency matrix\<close>

text \<open>
  \<open>get_adjacency_matrix\<close> (algorithms.py, lines 99-122). A cell of the NumPy array is
  a number or \<open>np.inf\<close>; the array is a list of rows, and \<open>adj_matrix[i, j] = c\<close>
  is \<open>mat_set\<close>. The two loops run over \<open>enumerate(nodes)\<close>; \<open>has_edge\<close> and
  the lookup of the weight that follows it are one case distinction on the adjacency.
\<close>

datatype cell = Num real | Infinity

type_synonym matrix = "cell list list"

definition np_full :: "nat \<Rightarrow> cell \<Rightarrow> matrix" where
  "np_full n c = replicate n (replicate n c)"

definition mat_set :: "matrix \<Rightarrow> nat \<Rightarrow> nat \<Rightarrow> cell \<Rightarrow> matrix" where
  "mat_set m i j c = m[i := (m ! i)[j := c]]"

fun fill_row :: "digraph \<Rightarrow> nat \<Rightarrow> node \<Rightarrow> (nat \<times> node) list \<Rightarrow> matrix \<Rightarrow> matrix" where
  "fill_row g i from_node [] m = m"
| "fill_row g i from_node ((j, to_node) # rest) m =
     fill_row g i from_node rest
       (case adj g (from_node, to_node) of
          Some a \<Rightarrow> mat_set m i j (Num (weight a))
        | None \<Rightarrow> m)"

fun fill_rows :: "digraph \<Rightarrow> (nat \<times> node) list \<Rightarrow> (nat \<times> node) list \<Rightarrow> matrix \<Rightarrow> matrix" where
  "fill_rows g cols [] m = m"
| "fill_rows g cols ((i, from_node) # rest) m =
     fill_rows g cols rest (fill_row g i from_node cols (mat_set m i i (Num 0)))"

definition get_adjacency_matrix :: "digraph \<Rightarrow> matrix \<times> node list" where
  "get_adjacency_matrix g =
     (let nodes' = sort (nodes g);
          adj_matrix = np_full (length nodes') Infinity
      in (fill_rows g (enumerate 0 nodes') (enumerate 0 nodes') adj_matrix, nodes'))"

text \<open>One city with a connection to itself.\<close>

definition loop_times :: "string \<Rightarrow> real option" where
  "loop_times = [''normal'' \<mapsto> 5, ''rain'' \<mapsto> 8, ''snow'' \<mapsto> 10, ''storm'' \<mapsto> 15]"

definition self_loop :: digraph where
  "self_loop = graph (snd (add_connection init_graph ''A'' ''A'' loop_times))"

text \<open>Square matrices of a given size, and the cell an edge decides.\<close>

definition shape :: "nat \<Rightarrow> matrix \<Rightarrow> bool" where
  "shape n m \<longleftrightarrow> length m = n \<and> (\<forall>i<n. length (m ! i) = n)"

definition edge_cell :: "digraph \<Rightarrow> node \<Rightarrow> node \<Rightarrow> cell \<Rightarrow> cell" where
  "edge_cell g u v other = (case adj g (u, v) of Some a \<Rightarrow> Num (weight a) | None \<Rightarrow> other)"

section \<open>algorithms.py: the centre of the graph\<close>

text \<open>\<open>graph.subgraph(largest_scc).copy()\<close>: a new graph on the nodes of the
  component that are nodes of the graph, with the edges between them. The copy lists its
  nodes in the order of the graph; the library leaves the order open, and no property
  below depends on it.\<close>

definition subgraph_copy :: "digraph \<Rightarrow> node list \<Rightarrow> digraph" where
  "subgraph_copy g c =
     \<lparr>nodes = filter (\<lambda>n. n \<in> set c) (nodes g),
      adj = (\<lambda>(u, v). if u \<in> set c \<and> v \<in> set c then adj g (u, v) else None)\<rparr>"

text \<open>\<open>max(components, key=len)\<close> and \<open>min(items, key=lambda x: x[1])\<close> on a
  sequence that is not empty: the first element is kept until a later one is strictly
  better.\<close>

fun max_by_len :: "'a list \<Rightarrow> 'a list list \<Rightarrow> 'a list" where
  "max_by_len best [] = best"
| "max_by_len best (c # cs) = max_by_len (if length best < length c then c else best) cs"

fun min_by_snd :: "node \<times> real \<Rightarrow> (node \<times> real) list \<Rightarrow> node \<times> real" where
  "min_by_snd best [] = best"
| "min_by_snd best (x # xs) = min_by_snd (if snd x < snd best then x else best) xs"

text \<open>The inner loop of lines 79-87, for one node.\<close>

definition eccentricity_of ::
  "(digraph \<Rightarrow> node \<Rightarrow> node \<Rightarrow> real option) \<Rightarrow> digraph \<Rightarrow> node \<Rightarrow> real"
where
  "eccentricity_of nx_shortest_path_length subgraph node =
     fold (\<lambda>target max_distance.
             if node \<noteq> target then
               (case nx_shortest_path_length subgraph node target of
                  Some distance \<Rightarrow> max max_distance distance
                | None \<Rightarrow> max_distance)
             else max_distance)
          (nodes subgraph) 0"

text \<open>
  \<open>find_center\<close> (algorithms.py, lines 56-96). The three library routines are
  parameters: \<open>nx.is_strongly_connected\<close>, which raises NetworkXPointlessConcept on the
  graph without nodes (\<open>None\<close>); \<open>nx.strongly_connected_components\<close>, whose sets are
  lists without repetition; and \<open>nx.shortest_path_length\<close>, \<open>None\<close> when it raises
  NetworkXNoPath. The dictionary \<open>eccentricity\<close> is the list of its items in insertion
  order; \<open>select_center\<close> is the part of the function from line 75 on.
\<close>

definition select_center ::
  "(digraph \<Rightarrow> node \<Rightarrow> node \<Rightarrow> real option) \<Rightarrow> digraph \<Rightarrow> py_error + node option"
where
  "select_center nx_shortest_path_length subgraph =
     (case map (\<lambda>node. (node, eccentricity_of nx_shortest_path_length subgraph node))
               (nodes subgraph) of
        [] \<Rightarrow> Inr None
      | e # es \<Rightarrow> Inr (Some (fst (min_by_snd e es))))"

definition find_center ::
  "(digraph \<Rightarrow> bool option) \<Rightarrow> (digraph \<Rightarrow> node list list) \<Rightarrow>
   (digraph \<Rightarrow> node \<Rightarrow> node \<Rightarrow> real option) \<Rightarrow> digraph \<Rightarrow> py_error + node option"
where
  "find_center nx_is_strongly_connected nx_strongly_connected_components
       nx_shortest_path_length g =
     (case nx_is_strongly_connected g of
        None \<Rightarrow> Inl NetworkXPointlessConcept
      | Some is_connected \<Rightarrow>
          (case (if \<not> is_connected then
                   (case nx_strongly_connected_components g of
                      [] \<Rightarrow> Inl ValueError
                    | c # cs \<Rightarrow> Inr (subgraph_copy g (max_by_len c cs)))
                 else Inr g) of
             Inl e \<Rightarrow> Inl e
           | Inr subgraph \<Rightarrow> select_center nx_shortest_path_length subgraph))"

subsection \<open>Strongly connected components, and what the library routines promise\<close>

definition edges_of :: "digraph \<Rightarrow> (node \<times> node) set" where
  "edges_of g = {(u, v). has_edge g u v}"

definition reachable :: "digraph \<Rightarrow> node \<Rightarrow> node \<Rightarrow> bool" where
  "reachable g u v \<longleftrightarrow> (u, v) \<in> (edges_of g)\<^sup>*"

definition strongly_connected :: "digraph \<Rightarrow> bool" where
  "strongly_connected g \<longleftrightarrow> (\<forall>u \<in> set (nodes g). \<forall>v \<in> set (nodes g). reachable g u v)"

definition scc_of :: "digraph \<Rightarrow> node \<Rightarrow> node set" where
  "scc_of g u = {v \<in> set (nodes g). reachable g u v \<and> reachable g v u}"

definition sccs :: "digraph \<Rightarrow> node set set" where
  "sccs g = scc_of g ` set (nodes g)"

definition nx_is_strongly_connected_ok :: "(digraph \<Rightarrow> bool option) \<Rightarrow> digraph \<Rightarrow> bool" where
  "nx_is_strongly_connected_ok nx_is_strongly_connected g \<longleftrightarrow>
     nx_is_strongly_connected g = (if nodes g = [] then None else Some (strongly_connected g))"

definition nx_strongly_connected_components_ok ::
  "(digraph \<Rightarrow> node list list) \<Rightarrow> digraph \<Rightarrow> bool"
where
  "nx_strongly_connected_components_ok nx_strongly_connected_components g \<longleftrightarrow>
     set ` set (nx_strongly_connected_components g) = sccs g \<and>
     list_all distinct (nx_strongly_connected_components g)"

text \<open>Executable stand-ins for the three routines, to instantiate the theorems.\<close>

fun reach_iter :: "nat \<Rightarrow> digraph \<Rightarrow> node list \<Rightarrow> node list" where
  "reach_iter 0 g xs = xs"
| "reach_iter (Suc k) g xs = reach_iter k g (remdups (xs @ concat (map (successors g) xs)))"

definition ref_reachable :: "digraph \<Rightarrow> node \<Rightarrow> node \<Rightarrow> bool" where
  "ref_reachable g u v = (v \<in> set (reach_iter (length (nodes g)) g [u]))"

definition ref_is_strongly_connected :: "digraph \<Rightarrow> bool option" where
  "ref_is_strongly_connected g =
     (if nodes g = [] then None
      else Some (list_all (\<lambda>u. list_all (ref_reachable g u) (nodes g)) (nodes g)))"

definition ref_scc_of :: "digraph \<Rightarrow> node \<Rightarrow> node list" where
  "ref_scc_of g u = filter (\<lambda>v. ref_reachable g u v \<and> ref_reachable g v u) (nodes g)"

fun ref_components :: "digraph \<Rightarrow> node list \<Rightarrow> node list list" where
  "ref_components g [] = []"
| "ref_components g (u # us) =
     ref_scc_of g u # ref_components g (filter (\<lambda>v. v \<notin> set (ref_scc_of g u)) us)"

definition ref_strongly_connected_components :: "digraph \<Rightarrow> node list list" where
  "ref_strongly_connected_components g = ref_components g (remdups (nodes g))"

definition ref_shortest_path_length :: "digraph \<Rightarrow> node \<Rightarrow> node \<Rightarrow> real option" where
  "ref_shortest_path_length g u v = map_option (path_weight g) (ref_shortest_path g u v)"

text \<open>Three cities: A and B joined both ways, and a connection from B to C.\<close>

definition unit_times :: "string \<Rightarrow> real option" where
  "unit_times = [''normal'' \<mapsto> 1, ''rain'' \<mapsto> 2, ''snow'' \<mapsto> 3, ''storm'' \<mapsto> 4]"

definition three_cities :: digraph where
  "three_cities = graph (snd (add_connection (snd (add_connection (snd (add_connection init_graph
       ''A'' ''B'' unit_times)) ''B'' ''A'' unit_times)) ''B'' ''C'' unit_times))"

section \<open>algorithms.py: all pairs\<close>

text \<open>Addition and comparison of distances, \<open>np.inf\<close> included.\<close>

fun cell_add :: "cell \<Rightarrow> cell \<Rightarrow> cell" where
  "cell_add (Num a) (Num b) = Num (a + b)"
| "cell_add _ _ = Infinity"

fun cell_less :: "cell \<Rightarrow> cell \<Rightarrow> bool" where
  "cell_less (Num a) (Num b) = (a < b)"
| "cell_less (Num a) Infinity = True"
| "cell_less Infinity _ = False"

text \<open>
  Modelled from the spec: \<open>nx.floyd_warshall\<close>, a routine of the NetworkX library, is not
  under src/. Section 4.3 of the spec describes it: Floyd-Warshall over the nodes with the
  active weights, the distance from a node to itself 0, infinity where there is no edge,
  an entry for every ordered pair of nodes. The distances start from the weights of the
  edges and each triple of nodes relaxes one entry in place.
\<close>

definition floyd_warshall_init :: "digraph \<Rightarrow> node \<times> node \<Rightarrow> cell" where
  "floyd_warshall_init g =
     (\<lambda>(u, v). case adj g (u, v) of
                  Some a \<Rightarrow> if u = v then Num (min (weight a) 0) else Num (weight a)
                | None \<Rightarrow> if u = v then Num 0 else Infinity)"

definition relax :: "node \<Rightarrow> node \<Rightarrow> node \<Rightarrow> (node \<times> node \<Rightarrow> cell) \<Rightarrow> (node \<times> node \<Rightarrow> cell)" where
  "relax w u v dist' =
     (let d = cell_add (dist' (u, w)) (dist' (w, v))
      in if cell_less d (dist' (u, v)) then dist'((u, v) := d) else dist')"

definition floyd_warshall_loops :: "node list \<Rightarrow> (node \<times> node \<Rightarrow> cell) \<Rightarrow> (node \<times> node \<Rightarrow> cell)" where
  "floyd_warshall_loops ns dist_init =
     fold (\<lambda>w dist'. fold (\<lambda>u dist'. fold (\<lambda>v dist'. relax w u v dist') ns dist') ns dist') ns dist_init"

definition nx_floyd_warshall :: "digraph \<Rightarrow> node \<times> node \<Rightarrow> cell option" where
  "nx_floyd_warshall g =
     (\<lambda>(u, v). if u \<in> set (nodes g) \<and> v \<in> set (nodes g)
               then Some (floyd_warshall_loops (nodes g) (floyd_warshall_init g) (u, v))
               else None)"

text \<open>\<open>all_pairs_shortest_paths\<close> (algorithms.py, lines 42-53) returns the dictionary
  of the library routine: a partial map on the ordered pairs of nodes.\<close>

definition all_pairs_shortest_paths :: "digraph \<Rightarrow> node \<times> node \<Rightarrow> cell option" where
  "all_pairs_shortest_paths g = nx_floyd_warshall g"

text \<open>No active weight is negative.\<close>

definition nonneg_weights :: "digraph \<Rightarrow> bool" where
  "nonneg_weights g \<longleftrightarrow> (\<forall>u v a. adj g (u, v) = Some a \<longrightarrow> 0 \<le> weight a)"

text \<open>The two invariants of the relaxation.\<close>

definition finite_reachable :: "digraph \<Rightarrow> (node \<times> node \<Rightarrow> cell) \<Rightarrow> bool" where
  "finite_reachable g d \<longleftrightarrow> (\<forall>u v. d (u, v) \<noteq> Infinity \<longrightarrow> reachable g u v)"

definition nonneg_zero_diag :: "(node \<times> node \<Rightarrow> cell) \<Rightarrow> bool" where
  "nonneg_zero_diag d \<longleftrightarrow> (\<forall>u v. \<not> cell_less (d (u, v)) (Num 0)) \<and> (\<forall>u. d (u, u) = Num 0)"

section \<open>The queries as programs on the objects\<close>

text \<open>
  The functions of \<open>algorithms.py\<close> receive a reference to an \<open>nx.DiGraph\<close> object, and a
  \<open>LogisticaGraph\<close> object holds such a reference (\<open>self.graph\<close>) beside its weather
  selection. The heap holds the objects of both classes; a reference is an index. Each
  function is written again as a program on the heap, statement by statement, in which every
  access to a graph is one of the operations below, and every library routine is a program
  given as a parameter.
\<close>

record logistica_object =
  self_graph :: nat
  self_current_weather :: string

record heap =
  digraphs :: "digraph list"
  logisticas :: "logistica_object list"

text \<open>The \<open>LogisticaGraph\<close> behind a reference, as a value.\<close>

definition logistica_at :: "heap \<Rightarrow> nat \<Rightarrow> logistica_graph" where
  "logistica_at h l =
     \<lparr>graph = digraphs h ! self_graph (logisticas h ! l),
      current_weather = self_current_weather (logisticas h ! l)\<rparr>"

text \<open>\<open>get_networkx_graph\<close> (graph.py, lines 198-205) returns the reference itself.\<close>

definition get_networkx_graph :: "nat \<Rightarrow> (heap, nat) state" where
  "get_networkx_graph l = State (\<lambda>h. (self_graph (logisticas h ! l), h))"

text \<open>\<open>graph.nodes\<close>, \<open>graph.nodes()\<close>.\<close>

definition graph_nodes :: "nat \<Rightarrow> (heap, node list) state" where
  "graph_nodes r = State (\<lambda>h. (nodes (digraphs h ! r), h))"

text \<open>\<open>graph[u][v]\<close> and \<open>graph.has_edge(u, v)\<close>: the attributes of the edge, if it exists.\<close>

definition graph_edge :: "nat \<Rightarrow> node \<Rightarrow> node \<Rightarrow> (heap, attrs option) state" where
  "graph_edge r u v = State (\<lambda>h. (adj (digraphs h ! r) (u, v), h))"

text \<open>\<open>graph.subgraph(c).copy()\<close> allocates a new graph object and returns its reference.\<close>

definition graph_subgraph_copy :: "nat \<Rightarrow> node list \<Rightarrow> (heap, nat) state" where
  "graph_subgraph_copy r c =
     State (\<lambda>h. (length (digraphs h),
                 h\<lparr>digraphs := digraphs h @ [subgraph_copy (digraphs h ! r) c]\<rparr>))"

text \<open>
  For contrast, \<open>set_weather\<close> (graph.py, lines 95-107) as a program on the heap: it
  assigns to \<open>self.current_weather\<close> and to the weight of every edge of \<open>self.graph\<close>.
\<close>

definition set_weather_prog :: "nat \<Rightarrow> string \<Rightarrow> (heap, bool) state" where
  "set_weather_prog l weather_type =
     State (\<lambda>h. (fst (set_weather (logistica_at h l) weather_type),
                 h\<lparr>digraphs := (digraphs h)[self_graph (logisticas h ! l) :=
                                    graph (snd (set_weather (logistica_at h l) weather_type))],
                   logisticas := (logisticas h)[l := (logisticas h ! l)
                      \<lparr>self_current_weather :=
                         current_weather (snd (set_weather (logistica_at h l) weather_type))\<rparr>]\<rparr>))"

text \<open>\<open>shortest_path\<close> (algorithms.py, lines 10-39); the loop of lines 32-33 runs over
  \<open>range(len(path) - 1)\<close>.\<close>

fun path_cost_prog ::
  "nat \<Rightarrow> node list \<Rightarrow> nat list \<Rightarrow> real \<Rightarrow> (heap, py_error + real) state"
where
  "path_cost_prog r path [] total_distance = State_Monad.return (Inr total_distance)"
| "path_cost_prog r path (i # rest) total_distance =
     do { e \<leftarrow> graph_edge r (path ! i) (path ! (i + 1));
          case e of
            None \<Rightarrow> State_Monad.return (Inl KeyError)
          | Some a \<Rightarrow> path_cost_prog r path rest (total_distance + weight a) }"

definition shortest_path_prog ::
  "(nat \<Rightarrow> node \<Rightarrow> node \<Rightarrow> (heap, node list option) state) \<Rightarrow> nat \<Rightarrow> node \<Rightarrow> node
     \<Rightarrow> (heap, py_error + (node list option \<times> real option)) state"
where
  "shortest_path_prog nx_shortest_path r start end' =
     do { ns \<leftarrow> graph_nodes r;
          if start \<notin> set ns then State_Monad.return (Inr (None, None))
          else do {
            ns' \<leftarrow> graph_nodes r;
            if end' \<notin> set ns' then State_Monad.return (Inr (None, None))
            else do {
              found \<leftarrow> nx_shortest_path r start end';
              case found of
                None \<Rightarrow> State_Monad.return (Inr (None, None))
              | Some path \<Rightarrow> do {
                  c \<leftarrow> path_cost_prog r path [0..<length path - 1] 0;
                  State_Monad.return
                    (case c of Inl e \<Rightarrow> Inl e
                             | Inr total_distance \<Rightarrow> Inr (Some path, Some total_distance)) } } } }"

text \<open>\<open>all_pairs_shortest_paths\<close> (lines 42-53).\<close>

definition all_pairs_shortest_paths_prog ::
  "(nat \<Rightarrow> (heap, node \<times> node \<Rightarrow> cell option) state) \<Rightarrow> nat
     \<Rightarrow> (heap, node \<times> node \<Rightarrow> cell option) state"
where
  "all_pairs_shortest_paths_prog nx_floyd_warshall_routine r =
     do { distances \<leftarrow> nx_floyd_warshall_routine r; State_Monad.return distances }"

text \<open>\<open>get_adjacency_matrix\<close> (lines 99-122); the matrix is a local array.\<close>

fun fill_row_prog ::
  "nat \<Rightarrow> nat \<Rightarrow> node \<Rightarrow> (nat \<times> node) list \<Rightarrow> matrix \<Rightarrow> (heap, matrix) state"
where
  "fill_row_prog r i from_node [] m = State_Monad.return m"
| "fill_row_prog r i from_node ((j, to_node) # rest) m =
     do { e \<leftarrow> graph_edge r from_node to_node;
          fill_row_prog r i from_node rest
            (case e of Some a \<Rightarrow> mat_set m i j (Num (weight a)) | None \<Rightarrow> m) }"

fun fill_rows_prog ::
  "nat \<Rightarrow> (nat \<times> node) list \<Rightarrow> (nat \<times> node) list \<Rightarrow> matrix \<Rightarrow> (heap, matrix) state"
where
  "fill_rows_prog r cols [] m = State_Monad.return m"
| "fill_rows_prog r cols ((i, from_node) # rest) m =
     do { m' \<leftarrow> fill_row_prog r i from_node cols (mat_set m i i (Num 0));
          fill_rows_prog r cols rest m' }"

definition get_adjacency_matrix_prog :: "nat \<Rightarrow> (heap, matrix \<times> node list) state" where
  "get_adjacency_matrix_prog r =
     do { ns \<leftarrow> graph_nodes r;
          adj_matrix \<leftarrow> fill_rows_prog r (enumerate 0 (sort ns)) (enumerate 0 (sort ns))
                         (np_full (length (sort ns)) Infinity);
          State_Monad.return (adj_matrix, sort ns) }"

text \<open>\<open>find_center\<close> (lines 56-96): the two loops of lines 76-88, then lines 91-95.\<close>

fun max_distance_prog ::
  "(nat \<Rightarrow> node \<Rightarrow> node \<Rightarrow> (heap, real option) state) \<Rightarrow> nat \<Rightarrow> node \<Rightarrow> node list \<Rightarrow> real
     \<Rightarrow> (heap, real) state"
where
  "max_distance_prog nx_shortest_path_length sub node [] max_distance =
     State_Monad.return max_distance"
| "max_distance_prog nx_shortest_path_length sub node (target # rest) max_distance =
     (if node \<noteq> target then
        do { d \<leftarrow> nx_shortest_path_length sub node target;
             max_distance_prog nx_shortest_path_length sub node rest
               (case d of Some distance \<Rightarrow> max max_distance distance | None \<Rightarrow> max_distance) }
      else max_distance_prog nx_shortest_path_length sub node rest max_distance)"

fun eccentricity_prog ::
  "(nat \<Rightarrow> node \<Rightarrow> node \<Rightarrow> (heap, real option) state) \<Rightarrow> nat \<Rightarrow> node list
     \<Rightarrow> (heap, (node \<times> real) list) state"
where
  "eccentricity_prog nx_shortest_path_length sub [] = State_Monad.return []"
| "eccentricity_prog nx_shortest_path_length sub (node # rest) =
     do { targets \<leftarrow> graph_nodes sub;
          max_distance \<leftarrow> max_distance_prog nx_shortest_path_length sub node targets 0;
          items \<leftarrow> eccentricity_prog nx_shortest_path_length sub rest;
          State_Monad.return ((node, max_distance) # items) }"

definition select_center_prog ::
  "(nat \<Rightarrow> node \<Rightarrow> node \<Rightarrow> (heap, real option) state) \<Rightarrow> nat
     \<Rightarrow> (heap, py_error + node option) state"
where
  "select_center_prog nx_shortest_path_length sub =
     do { ns \<leftarrow> graph_nodes sub;
          eccentricity \<leftarrow> eccentricity_prog nx_shortest_path_length sub ns;
          State_Monad.return
            (case eccentricity of
               [] \<Rightarrow> Inr None
             | e # es \<Rightarrow> Inr (Some (fst (min_by_snd e es)))) }"

definition find_center_prog ::
  "(nat \<Rightarrow> (heap, bool option) state) \<Rightarrow> (nat \<Rightarrow> (heap, node list list) state) \<Rightarrow>
   (nat \<Rightarrow> node \<Rightarrow> node \<Rightarrow> (heap, real option) state) \<Rightarrow> nat
     \<Rightarrow> (heap, py_error + node option) state"
where
  "find_center_prog nx_is_strongly_connected nx_strongly_connected_components
       nx_shortest_path_length r =
     do { answer \<leftarrow> nx_is_strongly_connected r;
          case answer of
            None \<Rightarrow> State_Monad.return (Inl NetworkXPointlessConcept)
          | Some is_connected \<Rightarrow>
              if \<not> is_connected then
                do { components \<leftarrow> nx_strongly_connected_components r;
                     case components of
                       [] \<Rightarrow> State_Monad.return (Inl ValueError)
                     | c # cs \<Rightarrow>
                         do { sub \<leftarrow> graph_subgraph_copy r (max_by_len c cs);
                              select_center_prog nx_shortest_path_length sub } }
              else select_center_prog nx_shortest_path_length r }"

text \<open>
  A library routine that only reads the graph it is given: its answer is a function of that
  graph and it leaves the heap as it is.
\<close>

definition lift_lib1 :: "(digraph \<Rightarrow> 'a) \<Rightarrow> nat \<Rightarrow> (heap, 'a) state" where
  "lift_lib1 f r = State (\<lambda>h. (f (digraphs h ! r), h))"

definition lift_lib3 ::
  "(digraph \<Rightarrow> node \<Rightarrow> node \<Rightarrow> 'a) \<Rightarrow> nat \<Rightarrow> node \<Rightarrow> node \<Rightarrow> (heap, 'a) state"
where
  "lift_lib3 f r s t = State (\<lambda>h. (f (digraphs h ! r) s t, h))"

text \<open>
  What a call may do to the heap without changing any graph: every \<open>nx.DiGraph\<close> object
  that existed before the call is what it was (nodes, edges, the four profile values and
  the active weight of every edge), and so is every \<open>LogisticaGraph\<close> object (its graph
  reference and its weather selection). New graph objects may have been allocated.
\<close>

definition graph_unchanged :: "heap \<Rightarrow> heap \<Rightarrow> bool" where
  "graph_unchanged h h' \<longleftrightarrow>
     take (length (digraphs h)) (digraphs h') = digraphs h \<and> logisticas h' = logisticas h"

definition keeps_heap :: "(heap, 'a) state \<Rightarrow> bool" where
  "keeps_heap m \<longleftrightarrow> (\<forall>h. graph_unchanged h (snd (run_state m h)))"

text \<open>The heap of the graph \<open>three_cities\<close> under the weather it was built in, and the
  heap of the fixture.\<close>

definition three_heap :: heap where
  "three_heap = \<lparr>digraphs = [three_cities],
                 logisticas = [\<lparr>self_graph = 0, self_current_weather = ''normal''\<rparr>]\<rparr>"

definition scenario_heap :: heap where
  "scenario_heap = \<lparr>digraphs = [graph scenario],
                    logisticas = [\<lparr>self_graph = 0,
                                   self_current_weather = current_weather scenario\<rparr>]\<rparr>"

section \<open>Properties of the weather selector\<close>

lemma lookup_attr_valid:
  "w \<in> set valid_weather \<Longrightarrow> \<exists>x. lookup_attr a w = Some x"
  by (auto simp: valid_weather_def lookup_attr_def)

lemma lookup_attr_assign_weight:
  "w \<in> set valid_weather \<Longrightarrow> lookup_attr (assign_weight w a) w = Some (weight (assign_weight w a))"
  by (auto simp: valid_weather_def lookup_attr_def assign_weight_def)

lemma set_weather_consistent:
  "w \<in> set valid_weather \<Longrightarrow> weights_consistent (snd (set_weather lg w))"
  using lookup_attr_assign_weight
  by (auto simp: set_weather_def weights_consistent_def)

text \<open>
  C8: for a weather name outside normal, rain, snow and storm, \<open>set_weather\<close> returns
  its failure value \<open>False\<close> and the object is unchanged: the weather selection, every
  edge's active weight and every profile value are what they were.
\<close>

theorem set_weather_invalid_unchanged:
  "p \<notin> {''normal'', ''rain'', ''snow'', ''storm''} \<Longrightarrow> set_weather lg p = (False, lg)"
  by (simp add: set_weather_def valid_weather_def)

theorem set_weather_invalid_unchanged_witness:
  "''fog'' \<notin> {''normal'', ''rain'', ''snow'', ''storm''} \<and>
   set_weather init_graph ''fog'' = (False, init_graph)"
  using set_weather_invalid_unchanged [of "''fog''" init_graph] by simp

lemma add_node_adj [simp]: "adj (add_node g n) = adj g"
  by (simp add: add_node_def)

lemma add_city_frame:
  "adj (graph (snd (add_city lg c))) = adj (graph lg)"
  "current_weather (snd (add_city lg c)) = current_weather lg"
  by (simp_all add: add_city_def)

lemma weights_consistent_cong:
  "adj (graph lg') = adj (graph lg) \<Longrightarrow> current_weather lg' = current_weather lg \<Longrightarrow>
   weights_consistent lg \<Longrightarrow> weights_consistent lg'"
  by (simp add: weights_consistent_def)

lemma lookup_attr_new_edge:
  assumes "cw \<in> set valid_weather"
    and "tm ''normal'' = Some n" "tm ''rain'' = Some r" "tm ''snow'' = Some s"
    and "tm ''storm'' = Some t" "tm cw = Some w"
  shows "lookup_attr \<lparr>normal = n, rain = r, snow = s, storm = t, weight = w\<rparr> cw = Some w"
proof -
  from assms(1) consider "cw = ''normal''" | "cw = ''rain''" | "cw = ''snow''" | "cw = ''storm''"
    by (auto simp: valid_weather_def)
  then show ?thesis
  proof cases
    case 1 with assms(2,6) show ?thesis by (simp add: lookup_attr_def)
  next
    case 2 with assms(3,6) show ?thesis by (simp add: lookup_attr_def)
  next
    case 3 with assms(4,6) show ?thesis by (simp add: lookup_attr_def)
  next
    case 4 with assms(5,6) show ?thesis by (simp add: lookup_attr_def)
  qed
qed

lemma add_connection_consistent:
  assumes wc: "weights_consistent lg"
  shows "weights_consistent (snd (add_connection lg f t tm))"
proof -
  define lg1 where "lg1 = (if f \<notin> set (nodes (graph lg)) then snd (add_city lg f) else lg)"
  define lg2 where "lg2 = (if t \<notin> set (nodes (graph lg1)) then snd (add_city lg1 t) else lg1)"
  have fr: "adj (graph lg2) = adj (graph lg)" "current_weather lg2 = current_weather lg"
    by (simp_all add: lg1_def lg2_def add_city_frame)
  have wc2: "weights_consistent lg2"
    by (rule weights_consistent_cong[OF fr wc])
  have r: "add_connection lg f t tm =
     (case tm ''normal'' of None \<Rightarrow> (Inl KeyError, lg2) | Some n \<Rightarrow>
         (case tm ''rain'' of None \<Rightarrow> (Inl KeyError, lg2) | Some r \<Rightarrow>
         (case tm ''snow'' of None \<Rightarrow> (Inl KeyError, lg2) | Some s \<Rightarrow>
         (case tm ''storm'' of None \<Rightarrow> (Inl KeyError, lg2) | Some st \<Rightarrow>
         (case tm (current_weather lg2) of None \<Rightarrow> (Inl KeyError, lg2) | Some w \<Rightarrow>
            (Inr True,
             lg2\<lparr>graph := add_edge (graph lg2) f t
                     \<lparr>normal = n, rain = r, snow = s, storm = st, weight = w\<rparr>\<rparr>))))))"
    unfolding add_connection_def Let_def lg2_def lg1_def by (rule refl)
  have cw: "current_weather lg2 \<in> set valid_weather"
    using wc2 by (simp add: weights_consistent_def)
  have new: "weights_consistent
       (lg2\<lparr>graph := add_edge (graph lg2) f t \<lparr>normal = n, rain = r, snow = s, storm = st, weight = w\<rparr>\<rparr>)"
    if k: "tm ''normal'' = Some n" "tm ''rain'' = Some r"
      "tm ''snow'' = Some s" "tm ''storm'' = Some st" "tm (current_weather lg2) = Some w"
    for n r s st w
  proof -
    have l: "lookup_attr \<lparr>normal = n, rain = r, snow = s, storm = st, weight = w\<rparr> (current_weather lg2) = Some w"
      by (rule lookup_attr_new_edge[OF cw k])
    have old: "\<And>u v a. adj (graph lg2) (u, v) = Some a \<Longrightarrow>
        lookup_attr a (current_weather lg2) = Some (weight a)"
      using wc2 by (simp add: weights_consistent_def)
    show ?thesis
      unfolding weights_consistent_def
    proof (intro conjI allI impI)
      show "current_weather (lg2\<lparr>graph := add_edge (graph lg2) f t
          \<lparr>normal = n, rain = r, snow = s, storm = st, weight = w\<rparr>\<rparr>) \<in> set valid_weather"
        using cw by simp
    next
      fix u v a
      assume a: "adj (graph (lg2\<lparr>graph := add_edge (graph lg2) f t
          \<lparr>normal = n, rain = r, snow = s, storm = st, weight = w\<rparr>\<rparr>)) (u, v) = Some a"
      show "lookup_attr a (current_weather (lg2\<lparr>graph := add_edge (graph lg2) f t
          \<lparr>normal = n, rain = r, snow = s, storm = st, weight = w\<rparr>\<rparr>)) = Some (weight a)"
      proof (cases "(u, v) = (f, t)")
        case True
        with a have "a = \<lparr>normal = n, rain = r, snow = s, storm = st, weight = w\<rparr>"
          by (simp add: add_edge_def)
        with l show ?thesis by simp
      next
        case False
        with a have "adj (graph lg2) (u, v) = Some a"
          by (auto simp: add_edge_def split: if_splits)
        from old[OF this] show ?thesis by simp
      qed
    qed
  qed
  show ?thesis
  proof (cases "tm ''normal''")
    case None then show ?thesis unfolding r using wc2 by simp
  next
    case n: (Some n)
    show ?thesis
    proof (cases "tm ''rain''")
      case None then show ?thesis unfolding r using wc2 n by simp
    next
      case r': (Some r')
      show ?thesis
      proof (cases "tm ''snow''")
        case None then show ?thesis unfolding r using wc2 n r' by simp
      next
        case s: (Some s)
        show ?thesis
        proof (cases "tm ''storm''")
          case None then show ?thesis unfolding r using wc2 n r' s by simp
        next
          case st: (Some st)
          show ?thesis
          proof (cases "tm (current_weather lg2)")
            case None then show ?thesis unfolding r using wc2 n r' s st by simp
          next
            case (Some w)
            from new[OF n r' s st Some] show ?thesis
              unfolding r by (simp add: n r' s st Some)
          qed
        qed
      qed
    qed
  qed
qed

lemma float_of_digits_simps:
  "float_of_digits ''5'' = Some 5" "float_of_digits ''8'' = Some 8"
  "float_of_digits ''10'' = Some 10" "float_of_digits ''15'' = Some 15"
  "float_of_digits ''3'' = Some 3" "float_of_digits ''4'' = Some 4"
  "float_of_digits ''6'' = Some 6" "float_of_digits ''9'' = Some 9"
  "float_of_digits ''2'' = Some 2" "float_of_digits ''20'' = Some 20"
  "float_of_digits ''25'' = Some 25" "float_of_digits ''30'' = Some 30"
  by (simp_all add: float_of_digits_def mantissa_def signed_def is_digit_def digit_of_def)


lemma float_of_digits_refuses:
  "float_of_digits ''abc'' = None" "float_of_digits [] = None"
  "float_of_digits ''1__0'' = None" "float_of_digits ''.'' = None"
  "float_of_digits ''5e'' = None" "float_of_digits ''--5'' = None"
  by (simp_all add: float_of_digits_def mantissa_def exponent_def signed_def is_digit_def
      digit_of_def)

text \<open>
  C1: the active weight of every edge is its value for the current weather after each
  mutating operation. \<open>set_weather\<close> and \<open>add_connection\<close> keep it
  (\<open>set_weather_consistent\<close>, \<open>add_connection_consistent\<close>); \<open>load_from_file\<close>
  does not. After \<open>set_weather("rain")\<close>, loading the record \<open>A B 5 8 10 15\<close> succeeds
  and leaves the edge with the active weight 5, its \<open>normal\<close> value, while the weather
  is \<open>rain\<close> and its \<open>rain\<close> value is 8.
\<close>

theorem load_from_file_keeps_normal_weight:
  "fst (load_from_file float_of_digits (snd (set_weather init_graph ''rain''))
          (Some [[''A'', ''B'', ''5'', ''8'', ''10'', ''15'']])) \<and>
   current_weather (snd (load_from_file float_of_digits (snd (set_weather init_graph ''rain''))
          (Some [[''A'', ''B'', ''5'', ''8'', ''10'', ''15'']]))) = ''rain'' \<and>
   adj (graph (snd (load_from_file float_of_digits (snd (set_weather init_graph ''rain''))
          (Some [[''A'', ''B'', ''5'', ''8'', ''10'', ''15'']])))) (''A'', ''B'')
     = Some \<lparr>normal = 5, rain = 8, snow = 10, storm = 15, weight = 5\<rparr>"
  by (simp add: Let_def set_weather_def valid_weather_def init_graph_def empty_digraph_def
      load_from_file_def load_record_def float_of_digits_simps add_edge_def add_node_def)

lemma load_from_file_breaks_consistency:
  "weights_consistent (snd (set_weather init_graph ''rain'')) \<and>
   \<not> weights_consistent
       (snd (load_from_file float_of_digits (snd (set_weather init_graph ''rain''))
          (Some [[''A'', ''B'', ''5'', ''8'', ''10'', ''15'']])))"
  by (simp add: Let_def set_weather_def valid_weather_def init_graph_def empty_digraph_def
      load_from_file_def load_record_def float_of_digits_simps add_edge_def add_node_def
      weights_consistent_def lookup_attr_def)



section \<open>Properties of the shortest path\<close>

lemma path_cost_loop_sum:
  "path_cost_loop g p i t = Inr c \<Longrightarrow> i \<le> length p - 1 \<Longrightarrow>
     c = t + (\<Sum>k = i..<length p - 1. active_weight g (p ! k) (p ! Suc k)) \<and>
     (\<forall>k. i \<le> k \<and> k < length p - 1 \<longrightarrow> has_edge g (p ! k) (p ! Suc k))"
proof (induction g p i t rule: path_cost_loop.induct)
  case (1 g path i total)
  show ?case
  proof (cases "i < length path - 1")
    case False
    with "1.prems" show ?thesis by (auto simp: path_cost_loop.simps)
  next
    case True
    from "1.prems"(1) True obtain w where
      w: "edge_weight g (path ! i) (path ! (i + 1)) = Inr w"
      and rec: "path_cost_loop g path (i + 1) (total + w) = Inr c"
      by (subst (asm) path_cost_loop.simps) (auto split: sum.splits)
    from w have aw: "active_weight g (path ! i) (path ! Suc i) = w"
      and he: "has_edge g (path ! i) (path ! Suc i)"
      by (auto simp: edge_weight_def active_weight_def has_edge_def split: option.splits)
    from "1.IH"[OF True w rec] True
    have ih: "c = total + w + (\<Sum>k = i + 1..<length path - 1. active_weight g (path ! k) (path ! Suc k))"
      and ihe: "\<forall>k. i + 1 \<le> k \<and> k < length path - 1 \<longrightarrow> has_edge g (path ! k) (path ! Suc k)"
      by auto
    have "(\<Sum>k = i..<length path - 1. active_weight g (path ! k) (path ! Suc k))
        = w + (\<Sum>k = i + 1..<length path - 1. active_weight g (path ! k) (path ! Suc k))"
      using True aw by (simp add: sum.atLeast_Suc_lessThan)
    with ih have "c = total + (\<Sum>k = i..<length path - 1. active_weight g (path ! k) (path ! Suc k))"
      by simp
    moreover have "\<forall>k. i \<le> k \<and> k < length path - 1 \<longrightarrow> has_edge g (path ! k) (path ! Suc k)"
    proof (intro allI impI)
      fix k assume "i \<le> k \<and> k < length path - 1"
      then show "has_edge g (path ! k) (path ! Suc k)"
        using he ihe by (cases "k = i") auto
    qed
    ultimately show ?thesis by simp
  qed
qed

subsection \<open>The fixture, evaluated\<close>

lemma scenario_nodes: "nodes (graph scenario) = [''A'', ''B'', ''C'', ''D'']"
  by (simp add: scenario_def scenario_file_def load_from_file_def load_record_def
      float_of_digits_simps init_graph_def empty_digraph_def add_edge_def add_node_def Let_def)

lemma scenario_adj:
  "adj (graph scenario) =
     [(''A'', ''B'') \<mapsto> \<lparr>normal = 5, rain = 8, snow = 10, storm = 15, weight = 5\<rparr>,
      (''B'', ''C'') \<mapsto> \<lparr>normal = 3, rain = 4, snow = 6, storm = 9, weight = 3\<rparr>,
      (''C'', ''D'') \<mapsto> \<lparr>normal = 2, rain = 3, snow = 5, storm = 8, weight = 2\<rparr>,
      (''A'', ''D'') \<mapsto> \<lparr>normal = 15, rain = 20, snow = 25, storm = 30, weight = 15\<rparr>]"
  by (simp add: scenario_def scenario_file_def load_from_file_def load_record_def
      float_of_digits_simps init_graph_def empty_digraph_def add_edge_def add_node_def Let_def)

lemma scenario_rain_nodes: "nodes (graph scenario_rain) = [''A'', ''B'', ''C'', ''D'']"
  by (simp add: scenario_rain_def set_weather_def valid_weather_def scenario_nodes)

lemma scenario_rain_adj:
  "adj (graph scenario_rain) =
     [(''A'', ''B'') \<mapsto> \<lparr>normal = 5, rain = 8, snow = 10, storm = 15, weight = 8\<rparr>,
      (''B'', ''C'') \<mapsto> \<lparr>normal = 3, rain = 4, snow = 6, storm = 9, weight = 4\<rparr>,
      (''C'', ''D'') \<mapsto> \<lparr>normal = 2, rain = 3, snow = 5, storm = 8, weight = 3\<rparr>,
      (''A'', ''D'') \<mapsto> \<lparr>normal = 15, rain = 20, snow = 25, storm = 30, weight = 20\<rparr>]"
  by (auto simp: scenario_rain_def set_weather_def valid_weather_def scenario_adj
      assign_weight_def lookup_attr_def fun_eq_iff)

lemma scenario_diamond: "diamond (graph scenario)"
  by (auto simp: diamond_def has_edge_def scenario_adj split: if_splits)

lemma scenario_rain_diamond: "diamond (graph scenario_rain)"
  by (auto simp: diamond_def has_edge_def scenario_rain_adj split: if_splits)

lemma scenario_lt:
  "path_weight (graph scenario) [''A'', ''B'', ''C'', ''D''] < path_weight (graph scenario) [''A'', ''D'']"
  by (simp add: active_weight_def scenario_adj)

lemma scenario_rain_lt:
  "path_weight (graph scenario_rain) [''A'', ''B'', ''C'', ''D'']
     < path_weight (graph scenario_rain) [''A'', ''D'']"
  by (simp add: active_weight_def scenario_rain_adj)

lemma path_cost_loop_scenario:
  "path_cost_loop (graph scenario) [''A'', ''B'', ''C'', ''D''] 0 0 = Inr 10"
  "path_cost_loop (graph scenario_rain) [''A'', ''B'', ''C'', ''D''] 0 0 = Inr 15"
  by (simp_all add: path_cost_loop.simps edge_weight_def scenario_adj scenario_rain_adj)

lemma ref_scenario:
  "ref_shortest_path (graph scenario) ''A'' ''D'' = Some [''A'', ''B'', ''C'', ''D'']"
  by (simp add: ref_shortest_path_def scenario_nodes successors_def has_edge_def scenario_adj
      active_weight_def numeral_eq_Suc)

lemma ref_scenario_rain:
  "ref_shortest_path (graph scenario_rain) ''A'' ''D'' = Some [''A'', ''B'', ''C'', ''D'']"
  by (simp add: ref_shortest_path_def scenario_rain_nodes successors_def has_edge_def
      scenario_rain_adj active_weight_def numeral_eq_Suc)

text \<open>The paths from A to D of a graph with the fixture's edges.\<close>

lemma diamond_paths:
  assumes d: "diamond g" and p: "is_path g ''A'' ''D'' q"
  shows "q = [''A'', ''D''] \<or> q = [''A'', ''B'', ''C'', ''D'']"
proof -
  have e: "\<And>u v. has_edge g u v \<longleftrightarrow>
      (u, v) \<in> {(''A'', ''B''), (''B'', ''C''), (''C'', ''D''), (''A'', ''D'')}"
    using d by (simp add: diamond_def)
  from p obtain r1 where q: "q = ''A'' # r1" and l: "last q = ''D''" and w: "is_walk g q"
    by (cases q) (auto simp: is_path_def)
  show ?thesis
  proof (cases r1)
    case Nil with q l show ?thesis by simp
  next
    case (Cons x2 r2)
    with q w have x2: "x2 = ''B'' \<or> x2 = ''D''" and w2: "is_walk g (x2 # r2)"
      by (auto simp: e)
    show ?thesis
    proof (cases r2)
      case Nil with q l Cons x2 show ?thesis by auto
    next
      case c3: (Cons x3 r3)
      with w2 x2 have x2B: "x2 = ''B''" and x3: "x3 = ''C''" and w3: "is_walk g (x3 # r3)"
        by (auto simp: e)
      show ?thesis
      proof (cases r3)
        case Nil with q l Cons c3 x3 show ?thesis by auto
      next
        case c4: (Cons x4 r4)
        with w3 x3 have x4: "x4 = ''D''" and w4: "is_walk g (x4 # r4)"
          by (auto simp: e)
        show ?thesis
        proof (cases r4)
          case Nil with q Cons c3 c4 x2B x3 x4 show ?thesis by simp
        next
          case c5: (Cons x5 r5)
          with w4 x4 show ?thesis by (auto simp: e)
        qed
      qed
    qed
  qed
qed

lemma diamond_is_path_direct: "diamond g \<Longrightarrow> is_path g ''A'' ''D'' [''A'', ''D'']"
  by (simp add: is_path_def diamond_def)

lemma diamond_is_path_indirect: "diamond g \<Longrightarrow> is_path g ''A'' ''D'' [''A'', ''B'', ''C'', ''D'']"
  by (simp add: is_path_def diamond_def)

lemma diamond_shortest:
  assumes d: "diamond g"
    and lt: "path_weight g [''A'', ''B'', ''C'', ''D''] < path_weight g [''A'', ''D'']"
    and ok: "nx_shortest_path_ok nx_sp g ''A'' ''D''"
  shows "nx_sp g ''A'' ''D'' = Some [''A'', ''B'', ''C'', ''D'']"
proof (cases "nx_sp g ''A'' ''D''")
  case None
  with ok diamond_is_path_direct[OF d] show ?thesis
    by (auto simp: nx_shortest_path_ok_def)
next
  case (Some p)
  with ok have p: "is_path g ''A'' ''D'' p"
    and m: "\<forall>q. is_path g ''A'' ''D'' q \<longrightarrow> path_weight g p \<le> path_weight g q"
    by (auto simp: nx_shortest_path_ok_def)
  from m diamond_is_path_indirect[OF d]
  have "path_weight g p \<le> path_weight g [''A'', ''B'', ''C'', ''D'']" by blast
  with lt have "p \<noteq> [''A'', ''D'']" by auto
  with diamond_paths[OF d p] Some show ?thesis by simp
qed

lemma diamond_ok:
  assumes d: "diamond g"
    and lt: "path_weight g [''A'', ''B'', ''C'', ''D''] < path_weight g [''A'', ''D'']"
    and r: "nx_sp g ''A'' ''D'' = Some [''A'', ''B'', ''C'', ''D'']"
  shows "nx_shortest_path_ok nx_sp g ''A'' ''D''"
  unfolding nx_shortest_path_ok_def r
  using diamond_is_path_indirect[OF d] diamond_paths[OF d] lt by fastforce

lemma two_cities_nodes: "nodes two_cities = [''A'', ''B'']"
  by (simp add: two_cities_def add_city_def init_graph_def empty_digraph_def add_node_def)

lemma two_cities_adj: "adj two_cities = (\<lambda>e. None)"
  by (simp add: two_cities_def add_city_def init_graph_def empty_digraph_def add_node_def)

lemma no_edges_no_path:
  assumes "\<forall>e. adj g e = None" and "s \<noteq> t"
  shows "\<not> (\<exists>p. is_path g s t p)"
proof
  assume "\<exists>p. is_path g s t p"
  then obtain p where p: "is_path g s t p" ..
  then obtain r where pr: "p = s # r" by (cases p) (auto simp: is_path_def)
  show False
  proof (cases r)
    case Nil with p pr assms(2) show False by (simp add: is_path_def)
  next
    case (Cons v r') with p pr assms(1) show False by (simp add: is_path_def has_edge_def)
  qed
qed

lemma ref_two_cities: "ref_shortest_path two_cities s t = (if s = t then Some [s] else None)"
  by (simp add: ref_shortest_path_def two_cities_nodes successors_def has_edge_def two_cities_adj
      numeral_2_eq_2)

subsection \<open>The claims about \<open>shortest_path\<close>\<close>

text \<open>
  C2, as the code has it: when a node is absent, and when both nodes exist and no path
  joins them (the library routine raises NetworkXNoPath), \<open>shortest_path\<close> returns the
  pair \<open>(None, None)\<close>. The two failures are one and the same value.
\<close>

theorem shortest_path_failures:
  "nx_shortest_path_ok nx_sp g start end' \<Longrightarrow>
     (start \<notin> set (nodes g) \<or> end' \<notin> set (nodes g)
        \<longrightarrow> shortest_path nx_sp g start end' = Inr (None, None)) \<and>
     (start \<in> set (nodes g) \<and> end' \<in> set (nodes g) \<and> \<not> (\<exists>p. is_path g start end' p)
        \<longrightarrow> shortest_path nx_sp g start end' = Inr (None, None))"
  by (auto simp: shortest_path_def nx_shortest_path_ok_def split: option.splits)

theorem shortest_path_failures_witness:
  "nx_shortest_path_ok ref_shortest_path two_cities ''A'' ''B'' \<and>
   shortest_path ref_shortest_path two_cities ''A'' ''B'' = Inr (None, None) \<and>
   nx_shortest_path_ok ref_shortest_path two_cities ''B'' ''Z'' \<and>
   shortest_path ref_shortest_path two_cities ''B'' ''Z'' = Inr (None, None)"
proof -
  have np: "\<not> (\<exists>p. is_path two_cities ''A'' ''B'' p)" "\<not> (\<exists>p. is_path two_cities ''B'' ''Z'' p)"
    using no_edges_no_path[of two_cities] by (simp_all add: two_cities_adj)
  have a: "nx_shortest_path_ok ref_shortest_path two_cities ''A'' ''B''"
    and b: "nx_shortest_path_ok ref_shortest_path two_cities ''B'' ''Z''"
    using np by (simp_all add: nx_shortest_path_ok_def ref_two_cities)
  from shortest_path_failures[OF a] shortest_path_failures[OF b] np a b show ?thesis
    by (simp add: two_cities_nodes)
qed

text \<open>
  C2 as stated fails: in the graph of two cities A and B without a connection, the query
  for the absent city Z and the query from A to the unreachable B return the same value,
  so the caller cannot tell an unknown node from a missing path.
\<close>

theorem shortest_path_failures_same_value:
  "''A'' \<in> set (nodes two_cities) \<and> ''B'' \<in> set (nodes two_cities) \<and>
   ''Z'' \<notin> set (nodes two_cities) \<and>
   \<not> (\<exists>p. is_path two_cities ''A'' ''B'' p) \<and>
   ref_shortest_path two_cities ''A'' ''B'' = None \<and>
   shortest_path ref_shortest_path two_cities ''A'' ''Z''
     = shortest_path ref_shortest_path two_cities ''A'' ''B''"
  using no_edges_no_path[of two_cities "''A''" "''B''"]
  by (simp add: two_cities_nodes two_cities_adj ref_two_cities shortest_path_def)

text \<open>
  C3: when \<open>shortest_path\<close> returns a path and a cost, every two consecutive nodes of
  the path are joined by an edge and the cost is the sum of the active weights of these
  edges; the library routine hands over a path only, no distance.
\<close>

theorem shortest_path_cost_is_sum:
  "shortest_path nx_sp g start end' = Inr (Some path, Some cost) \<Longrightarrow>
     (\<forall>i<length path - 1. has_edge g (path ! i) (path ! Suc i)) \<and>
     cost = (\<Sum>i<length path - 1. active_weight g (path ! i) (path ! Suc i))"
proof -
  assume r: "shortest_path nx_sp g start end' = Inr (Some path, Some cost)"
  then have "path_cost_loop g path 0 0 = Inr cost"
    by (auto simp: shortest_path_def split: if_splits option.splits sum.splits)
  from path_cost_loop_sum[OF this] show ?thesis
    by (simp add: atLeast0LessThan)
qed

theorem shortest_path_cost_is_sum_witness:
  "shortest_path ref_shortest_path (graph scenario) ''A'' ''D''
     = Inr (Some [''A'', ''B'', ''C'', ''D''], Some 10) \<and>
   (10 :: real) = (\<Sum>i<length [''A'', ''B'', ''C'', ''D''] - 1.
       active_weight (graph scenario) ([''A'', ''B'', ''C'', ''D''] ! i) ([''A'', ''B'', ''C'', ''D''] ! Suc i))"
proof -
  have e: "shortest_path ref_shortest_path (graph scenario) ''A'' ''D''
     = Inr (Some [''A'', ''B'', ''C'', ''D''], Some 10)"
    by (simp add: shortest_path_def ref_scenario scenario_nodes path_cost_loop_scenario)
  from shortest_path_cost_is_sum[OF e] e show ?thesis by blast
qed

text \<open>
  C4: on the graph with the edges A-B (5, 8, 10, 15), B-C (3, 4, 6, 9), C-D (2, 3, 5, 8)
  and A-D (15, 20, 25, 30), \<open>shortest_path\<close> from A to D returns the path A, B, C, D
  with cost 10 under \<open>normal\<close> and with cost 15 under \<open>rain\<close>, for every library
  routine that returns a path of least weight.
\<close>

theorem shortest_path_scenario:
  assumes "nx_shortest_path_ok nx_sp (graph scenario) ''A'' ''D''"
    and "nx_shortest_path_ok nx_sp (graph scenario_rain) ''A'' ''D''"
  shows "shortest_path nx_sp (graph scenario) ''A'' ''D''
           = Inr (Some [''A'', ''B'', ''C'', ''D''], Some 10) \<and>
         shortest_path nx_sp (graph scenario_rain) ''A'' ''D''
           = Inr (Some [''A'', ''B'', ''C'', ''D''], Some 15)"
proof -
  have 1: "nx_sp (graph scenario) ''A'' ''D'' = Some [''A'', ''B'', ''C'', ''D'']"
    by (rule diamond_shortest[OF scenario_diamond scenario_lt assms(1)])
  have 2: "nx_sp (graph scenario_rain) ''A'' ''D'' = Some [''A'', ''B'', ''C'', ''D'']"
    by (rule diamond_shortest[OF scenario_rain_diamond scenario_rain_lt assms(2)])
  show ?thesis
    by (simp add: shortest_path_def 1 2 scenario_nodes scenario_rain_nodes path_cost_loop_scenario)
qed

theorem shortest_path_scenario_witness:
  "nx_shortest_path_ok ref_shortest_path (graph scenario) ''A'' ''D'' \<and>
   nx_shortest_path_ok ref_shortest_path (graph scenario_rain) ''A'' ''D'' \<and>
   shortest_path ref_shortest_path (graph scenario) ''A'' ''D''
     = Inr (Some [''A'', ''B'', ''C'', ''D''], Some 10) \<and>
   shortest_path ref_shortest_path (graph scenario_rain) ''A'' ''D''
     = Inr (Some [''A'', ''B'', ''C'', ''D''], Some 15)"
proof -
  have a: "nx_shortest_path_ok ref_shortest_path (graph scenario) ''A'' ''D''"
    by (rule diamond_ok[where nx_sp = ref_shortest_path, OF scenario_diamond scenario_lt ref_scenario])
  have b: "nx_shortest_path_ok ref_shortest_path (graph scenario_rain) ''A'' ''D''"
    by (rule diamond_ok[where nx_sp = ref_shortest_path, OF scenario_rain_diamond scenario_rain_lt
          ref_scenario_rain])
  from a b shortest_path_scenario[OF a b] show ?thesis by simp
qed

section \<open>No weight is rejected\<close>














section \<open>Properties of the adjacency matrix\<close>

lemma shape_np_full: "shape n (np_full n c)"
  by (simp add: shape_def np_full_def)

lemma np_full_nth: "i < n \<Longrightarrow> j < n \<Longrightarrow> np_full n c ! i ! j = c"
  by (simp add: np_full_def)

lemma shape_mat_set: "shape n m \<Longrightarrow> shape n (mat_set m i j c)"
proof (cases "i < length m")
  case True
  assume "shape n m"
  with True show ?thesis by (simp add: shape_def mat_set_def nth_list_update)
next
  case False
  assume "shape n m"
  with False show ?thesis by (simp add: shape_def mat_set_def)
qed

lemma mat_set_nth:
  "shape n m \<Longrightarrow> i < n \<Longrightarrow> j < n \<Longrightarrow> i' < n \<Longrightarrow> j' < n \<Longrightarrow>
     mat_set m i j c ! i' ! j' = (if i' = i \<and> j' = j then c else m ! i' ! j')"
  by (auto simp: shape_def mat_set_def nth_list_update)

lemma fill_row_spec:
  "shape n m \<Longrightarrow> i < n \<Longrightarrow> k + length xs \<le> n \<Longrightarrow>
     shape n (fill_row g i u (enumerate k xs) m) \<and>
     (\<forall>i'<n. \<forall>j'<n. fill_row g i u (enumerate k xs) m ! i' ! j' =
        (if i' = i \<and> k \<le> j' \<and> j' < k + length xs
         then edge_cell g u (xs ! (j' - k)) (m ! i' ! j') else m ! i' ! j'))"
proof (induction xs arbitrary: k m)
  case Nil
  then show ?case by auto
next
  case (Cons x xs)
  define m1 where "m1 = (case adj g (u, x) of Some a \<Rightarrow> mat_set m i k (Num (weight a)) | None \<Rightarrow> m)"
  have s1: "shape n m1"
    using Cons.prems(1) by (simp add: m1_def shape_mat_set split: option.splits)
  have k: "k < n" using Cons.prems(3) by simp
  have c1: "m1 ! i' ! j' = (if i' = i \<and> j' = k then edge_cell g u x (m ! i' ! j') else m ! i' ! j')"
    if "i' < n" "j' < n" for i' j'
    using that Cons.prems(1,2) k
    by (auto simp: m1_def edge_cell_def mat_set_nth split: option.splits)
  have step: "fill_row g i u (enumerate k (x # xs)) m = fill_row g i u (enumerate (Suc k) xs) m1"
    by (simp add: m1_def)
  from Cons.IH[OF s1 Cons.prems(2), of "Suc k"] Cons.prems(3)
  have ih: "shape n (fill_row g i u (enumerate (Suc k) xs) m1)"
    and ihc: "\<And>i' j'. i' < n \<Longrightarrow> j' < n \<Longrightarrow> fill_row g i u (enumerate (Suc k) xs) m1 ! i' ! j' =
        (if i' = i \<and> Suc k \<le> j' \<and> j' < Suc k + length xs
         then edge_cell g u (xs ! (j' - Suc k)) (m1 ! i' ! j') else m1 ! i' ! j')"
    by auto
  show ?case
  proof (intro conjI allI impI)
    show "shape n (fill_row g i u (enumerate k (x # xs)) m)"
      using ih step by simp
  next
    fix i' j' assume b: "i' < n" "j' < n"
    show "fill_row g i u (enumerate k (x # xs)) m ! i' ! j' =
        (if i' = i \<and> k \<le> j' \<and> j' < k + length (x # xs)
         then edge_cell g u ((x # xs) ! (j' - k)) (m ! i' ! j') else m ! i' ! j')"
    proof (cases "i' = i \<and> Suc k \<le> j' \<and> j' < Suc k + length xs")
      case True
      then have "(x # xs) ! (j' - k) = xs ! (j' - Suc k)"
        by (simp add: nth_Cons')
      moreover from True have "m1 ! i' ! j' = m ! i' ! j'"
        using c1[OF b] by simp
      ultimately show ?thesis
        using True ihc[OF b] step by simp
    next
      case False
      have "fill_row g i u (enumerate (Suc k) xs) m1 ! i' ! j' = m1 ! i' ! j'"
        using ihc[OF b] by (simp only: False if_False)
      then have "fill_row g i u (enumerate k (x # xs)) m ! i' ! j' = m1 ! i' ! j'"
        by (simp only: step)
      also have "\<dots> = (if i' = i \<and> j' = k then edge_cell g u x (m ! i' ! j') else m ! i' ! j')"
        by (rule c1[OF b])
      finally show ?thesis using False by auto
    qed
  qed
qed

lemma fill_rows_spec:
  "shape n m \<Longrightarrow> length ns = n \<Longrightarrow> k + length ys \<le> n \<Longrightarrow>
     shape n (fill_rows g (enumerate 0 ns) (enumerate k ys) m) \<and>
     (\<forall>i'<n. \<forall>j'<n. fill_rows g (enumerate 0 ns) (enumerate k ys) m ! i' ! j' =
        (if k \<le> i' \<and> i' < k + length ys
         then edge_cell g (ys ! (i' - k)) (ns ! j') (if i' = j' then Num 0 else m ! i' ! j')
         else m ! i' ! j'))"
proof (induction ys arbitrary: k m)
  case Nil
  then show ?case by auto
next
  case (Cons y ys)
  have k: "k < n" using Cons.prems(3) by simp
  define m0 where "m0 = mat_set m k k (Num 0)"
  define m1 where "m1 = fill_row g k y (enumerate 0 ns) m0"
  have s0: "shape n m0" using Cons.prems(1) by (simp add: m0_def shape_mat_set)
  have c0: "m0 ! i' ! j' = (if i' = k \<and> j' = k then Num 0 else m ! i' ! j')"
    if "i' < n" "j' < n" for i' j'
    using that Cons.prems(1) k by (simp add: m0_def mat_set_nth)
  from fill_row_spec[OF s0 k, of 0 ns g y] Cons.prems(2)
  have s1: "shape n m1"
    and c1: "\<And>i' j'. i' < n \<Longrightarrow> j' < n \<Longrightarrow> m1 ! i' ! j' =
        (if i' = k then edge_cell g y (ns ! j') (m0 ! i' ! j') else m0 ! i' ! j')"
    by (auto simp: m1_def)
  have step: "fill_rows g (enumerate 0 ns) (enumerate k (y # ys)) m
      = fill_rows g (enumerate 0 ns) (enumerate (Suc k) ys) m1"
    by (simp add: m1_def m0_def)
  from Cons.IH[OF s1 Cons.prems(2), of "Suc k"] Cons.prems(3)
  have ih: "shape n (fill_rows g (enumerate 0 ns) (enumerate (Suc k) ys) m1)"
    and ihc: "\<And>i' j'. i' < n \<Longrightarrow> j' < n \<Longrightarrow>
        fill_rows g (enumerate 0 ns) (enumerate (Suc k) ys) m1 ! i' ! j' =
        (if Suc k \<le> i' \<and> i' < Suc k + length ys
         then edge_cell g (ys ! (i' - Suc k)) (ns ! j') (if i' = j' then Num 0 else m1 ! i' ! j')
         else m1 ! i' ! j')"
    by auto
  show ?case
  proof (intro conjI allI impI)
    show "shape n (fill_rows g (enumerate 0 ns) (enumerate k (y # ys)) m)"
      using ih step by simp
  next
    fix i' j' assume b: "i' < n" "j' < n"
    show "fill_rows g (enumerate 0 ns) (enumerate k (y # ys)) m ! i' ! j' =
        (if k \<le> i' \<and> i' < k + length (y # ys)
         then edge_cell g ((y # ys) ! (i' - k)) (ns ! j') (if i' = j' then Num 0 else m ! i' ! j')
         else m ! i' ! j')"
    proof (cases "Suc k \<le> i' \<and> i' < Suc k + length ys")
      case True
      then have "(y # ys) ! (i' - k) = ys ! (i' - Suc k)"
        by (simp add: nth_Cons')
      moreover from True have "m1 ! i' ! j' = m ! i' ! j'"
        using c1[OF b] c0[OF b] by simp
      ultimately show ?thesis
        using True ihc[OF b] step by simp
    next
      case False
      have "fill_rows g (enumerate 0 ns) (enumerate (Suc k) ys) m1 ! i' ! j' = m1 ! i' ! j'"
        using ihc[OF b] by (simp only: False if_False)
      then have "fill_rows g (enumerate 0 ns) (enumerate k (y # ys)) m ! i' ! j' = m1 ! i' ! j'"
        by (simp only: step)
      also have "\<dots> = (if i' = k then edge_cell g y (ns ! j') (m0 ! i' ! j') else m0 ! i' ! j')"
        by (rule c1[OF b])
      finally show ?thesis using False c0[OF b] by (auto simp: edge_cell_def split: option.splits)
    qed
  qed
qed

lemma get_adjacency_matrix_cell:
  assumes "i < length (nodes g)" "j < length (nodes g)"
  shows "fst (get_adjacency_matrix g) ! i ! j =
     (case adj g (sort (nodes g) ! i, sort (nodes g) ! j) of
        Some a \<Rightarrow> Num (weight a)
      | None \<Rightarrow> if i = j then Num 0 else Infinity)"
proof -
  let ?ns = "sort (nodes g)"
  let ?n = "length ?ns"
  have "shape ?n (np_full ?n Infinity)" by (rule shape_np_full)
  from fill_rows_spec[OF this refl, of 0 ?ns g] assms
  have "fill_rows g (enumerate 0 ?ns) (enumerate 0 ?ns) (np_full ?n Infinity) ! i ! j =
      edge_cell g (?ns ! i) (?ns ! j) (if i = j then Num 0 else np_full ?n Infinity ! i ! j)"
    by simp
  moreover have "np_full ?n Infinity ! i ! j = Infinity"
    using assms by (simp add: np_full_nth)
  ultimately show ?thesis
    by (simp add: get_adjacency_matrix_def Let_def edge_cell_def split: option.splits)
qed

lemma get_adjacency_matrix_nodes:
  "snd (get_adjacency_matrix g) = sort (nodes g)"
  by (simp add: get_adjacency_matrix_def Let_def)

lemma self_loop_nodes: "nodes self_loop = [''A'']"
  by (simp add: self_loop_def add_connection_def loop_times_def init_graph_def empty_digraph_def
      add_city_def add_node_def add_edge_def Let_def)

lemma self_loop_adj:
  "adj self_loop = [(''A'', ''A'') \<mapsto> \<lparr>normal = 5, rain = 8, snow = 10, storm = 15, weight = 5\<rparr>]"
  by (simp add: self_loop_def add_connection_def loop_times_def init_graph_def empty_digraph_def
      add_city_def add_node_def add_edge_def Let_def)

text \<open>
  C7: the node list is the sorted list of the nodes (\<open>get_adjacency_matrix_nodes\<close>) and
  a cell off the diagonal is the active weight of the direct edge, or infinity
  (\<open>get_adjacency_matrix_cell\<close>). The diagonal is set to 0 before the inner loop
  runs over the same row, so a connection from a city to itself overwrites it: for the
  graph with the one connection from A to A the only cell is 5, not 0.
\<close>

theorem adjacency_matrix_self_loop:
  "get_adjacency_matrix self_loop = ([[Num 5]], [''A''])"
  by (simp add: get_adjacency_matrix_def self_loop_nodes self_loop_adj np_full_def mat_set_def)

section \<open>Properties of the centre\<close>

lemma max_by_len_mem: "max_by_len best cs \<in> set (best # cs)"
  by (induction cs arbitrary: best) auto

lemma max_by_len_ge: "d \<in> set (best # cs) \<Longrightarrow> length d \<le> length (max_by_len best cs)"
proof (induction cs arbitrary: best d)
  case Nil
  then show ?case by simp
next
  case (Cons c cs)
  let ?b = "if length best < length c then c else best"
  have b: "length best \<le> length (max_by_len ?b cs)" "length c \<le> length (max_by_len ?b cs)"
  proof -
    have 1: "length ?b \<le> length (max_by_len ?b cs)" by (rule Cons.IH) simp
    show "length best \<le> length (max_by_len ?b cs)" using 1 by (simp split: if_splits)
    show "length c \<le> length (max_by_len ?b cs)" using 1 by (simp split: if_splits)
  qed
  from Cons.prems consider "d = best" | "d = c" | "d \<in> set cs" by auto
  then show ?case
  proof cases
    case 1 with b show ?thesis by simp
  next
    case 2 with b show ?thesis by simp
  next
    case 3
    then have "d \<in> set (?b # cs)" by simp
    from Cons.IH[OF this] show ?thesis by simp
  qed
qed

lemma min_by_snd_mem: "min_by_snd best xs \<in> set (best # xs)"
  by (induction xs arbitrary: best) auto

lemma scc_of_self: "u \<in> set (nodes g) \<Longrightarrow> u \<in> scc_of g u"
  by (simp add: scc_of_def reachable_def)

lemma scc_of_subset: "scc_of g u \<subseteq> set (nodes g)"
  by (auto simp: scc_of_def)

lemma three_cities_nodes: "nodes three_cities = [''A'', ''B'', ''C'']"
  by (simp add: three_cities_def add_connection_def unit_times_def init_graph_def
      empty_digraph_def add_city_def add_node_def add_edge_def Let_def)

lemma three_cities_adj:
  "adj three_cities =
     [(''A'', ''B'') \<mapsto> \<lparr>normal = 1, rain = 2, snow = 3, storm = 4, weight = 1\<rparr>,
      (''B'', ''A'') \<mapsto> \<lparr>normal = 1, rain = 2, snow = 3, storm = 4, weight = 1\<rparr>,
      (''B'', ''C'') \<mapsto> \<lparr>normal = 1, rain = 2, snow = 3, storm = 4, weight = 1\<rparr>]"
  by (simp add: three_cities_def add_connection_def unit_times_def init_graph_def
      empty_digraph_def add_city_def add_node_def add_edge_def Let_def)

lemma three_cities_edges:
  "edges_of three_cities = {(''A'', ''B''), (''B'', ''A''), (''B'', ''C'')}"
  by (auto simp: edges_of_def has_edge_def three_cities_adj split: if_splits)

lemma three_cities_from_C: "reachable three_cities ''C'' v \<longleftrightarrow> v = ''C''"
proof
  assume "reachable three_cities ''C'' v"
  then have "(''C'', v) \<in> (edges_of three_cities)\<^sup>*" by (simp add: reachable_def)
  then show "v = ''C''"
    by (rule converse_rtranclE) (auto simp: three_cities_edges)
qed (simp add: reachable_def)

lemma three_cities_reach:
  "reachable three_cities ''A'' ''B''" "reachable three_cities ''B'' ''A''"
proof -
  have e: "(''A'', ''B'') \<in> edges_of three_cities" "(''B'', ''A'') \<in> edges_of three_cities"
    by (simp_all add: three_cities_edges)
  show "reachable three_cities ''A'' ''B''"
    unfolding reachable_def using e(1) by (rule r_into_rtrancl)
  show "reachable three_cities ''B'' ''A''"
    unfolding reachable_def using e(2) by (rule r_into_rtrancl)
qed

lemma reachable_refl: "reachable g u u"
  by (simp add: reachable_def)

lemma three_cities_scc_A: "scc_of three_cities ''A'' = {''A'', ''B''}"
proof (rule set_eqI)
  fix v
  show "v \<in> scc_of three_cities ''A'' \<longleftrightarrow> v \<in> {''A'', ''B''}"
  proof (cases "v = ''C''")
    case True
    then show ?thesis by (simp add: scc_of_def three_cities_from_C)
  next
    case False
    then show ?thesis
      using three_cities_reach reachable_refl[of three_cities "''A''"]
      by (auto simp: scc_of_def three_cities_nodes)
  qed
qed

lemma three_cities_scc_B: "scc_of three_cities ''B'' = {''A'', ''B''}"
proof (rule set_eqI)
  fix v
  show "v \<in> scc_of three_cities ''B'' \<longleftrightarrow> v \<in> {''A'', ''B''}"
  proof (cases "v = ''C''")
    case True
    then show ?thesis by (simp add: scc_of_def three_cities_from_C)
  next
    case False
    then show ?thesis
      using three_cities_reach reachable_refl[of three_cities "''B''"]
      by (auto simp: scc_of_def three_cities_nodes)
  qed
qed

lemma three_cities_scc_C: "scc_of three_cities ''C'' = {''C''}"
  by (auto simp: scc_of_def three_cities_nodes three_cities_from_C reachable_refl)

lemma three_cities_sccs: "sccs three_cities = {{''A'', ''B''}, {''C''}}"
  by (simp add: sccs_def three_cities_nodes three_cities_scc_A three_cities_scc_B
      three_cities_scc_C)

lemma three_cities_not_connected: "\<not> strongly_connected three_cities"
proof
  assume "strongly_connected three_cities"
  then have "reachable three_cities ''C'' ''A''"
    by (simp add: strongly_connected_def three_cities_nodes)
  then show False by (simp add: three_cities_from_C)
qed

lemma three_cities_successors:
  "successors three_cities ''A'' = [''B'']"
  "successors three_cities ''B'' = [''A'', ''C'']"
  "successors three_cities ''C'' = []"
  by (simp_all add: successors_def three_cities_nodes has_edge_def three_cities_adj)

lemma three_cities_ref_reachable:
  "ref_reachable three_cities ''A'' v \<longleftrightarrow> v \<in> {''A'', ''B'', ''C''}"
  "ref_reachable three_cities ''B'' v \<longleftrightarrow> v \<in> {''A'', ''B'', ''C''}"
  "ref_reachable three_cities ''C'' v \<longleftrightarrow> v = ''C''"
  by (auto simp: ref_reachable_def three_cities_nodes numeral_3_eq_3 three_cities_successors)

lemma three_cities_ref_isc: "ref_is_strongly_connected three_cities = Some False"
  by (simp add: ref_is_strongly_connected_def three_cities_nodes three_cities_ref_reachable)

lemma three_cities_ref_scc:
  "ref_strongly_connected_components three_cities = [[''A'', ''B''], [''C'']]"
  by (simp add: ref_strongly_connected_components_def three_cities_nodes ref_scc_of_def
      three_cities_ref_reachable)

lemma three_cities_sub:
  "subgraph_copy three_cities [''A'', ''B''] =
     \<lparr>nodes = [''A'', ''B''],
      adj = (\<lambda>(u, v). if u \<in> set [''A'', ''B''] \<and> v \<in> set [''A'', ''B'']
                        then adj three_cities (u, v) else None)\<rparr>"
  by (simp add: subgraph_copy_def three_cities_nodes)

lemma three_cities_center:
  "find_center ref_is_strongly_connected ref_strongly_connected_components
     ref_shortest_path_length three_cities = Inr (Some ''A'')"
  by (simp add: find_center_def select_center_def three_cities_ref_isc three_cities_ref_scc
      three_cities_sub
      eccentricity_of_def ref_shortest_path_length_def ref_shortest_path_def
      successors_def has_edge_def three_cities_adj active_weight_def numeral_2_eq_2)

text \<open>
  C6: for a graph with at least one node that is not strongly connected,
  \<open>find_center\<close> returns a node, and this node lies in a strongly connected component
  that no other component exceeds in size; the library routines are any that report the
  connectivity and the components of the graph.
\<close>

theorem find_center_in_largest_scc:
  assumes ne: "nodes g \<noteq> []" and nsc: "\<not> strongly_connected g"
    and isc: "nx_is_strongly_connected_ok nx_isc g"
    and scc: "nx_strongly_connected_components_ok nx_scc g"
  shows "\<exists>c C. find_center nx_isc nx_scc nx_spl g = Inr (Some c) \<and> c \<in> C \<and>
           C \<in> sccs g \<and> (\<forall>D \<in> sccs g. card D \<le> card C)"
proof -
  from isc ne nsc have 1: "nx_isc g = Some False"
    by (simp add: nx_is_strongly_connected_ok_def)
  from scc have img: "set ` set (nx_scc g) = sccs g" and dist: "list_all distinct (nx_scc g)"
    by (simp_all add: nx_strongly_connected_components_ok_def)
  from ne have "sccs g \<noteq> {}" by (simp add: sccs_def)
  with img obtain c cs where cs: "nx_scc g = c # cs"
    by (cases "nx_scc g") auto
  define best where "best = max_by_len c cs"
  have bm: "best \<in> set (nx_scc g)"
    unfolding best_def cs by (rule max_by_len_mem)
  then have bs: "set best \<in> sccs g" using img by blast
  then obtain u where u: "u \<in> set (nodes g)" "set best = scc_of g u"
    by (auto simp: sccs_def)
  define sg where "sg = subgraph_copy g best"
  have sgn: "set (nodes sg) = set best"
    using scc_of_subset[of g u] u(2) by (auto simp: sg_def subgraph_copy_def)
  have "u \<in> set (nodes sg)" using sgn u scc_of_self by simp
  then obtain n ns where ns: "nodes sg = n # ns" by (cases "nodes sg") auto
  define ecc where "ecc = (\<lambda>node. (node, eccentricity_of nx_spl sg node))"
  have r: "find_center nx_isc nx_scc nx_spl g
      = Inr (Some (fst (min_by_snd (ecc n) (map ecc ns))))"
    by (simp add: find_center_def select_center_def 1 cs best_def[symmetric] sg_def[symmetric]
        ns ecc_def)
  have "min_by_snd (ecc n) (map ecc ns) \<in> set (map ecc (n # ns))"
    using min_by_snd_mem[of "ecc n" "map ecc ns"] by simp
  then have "fst (min_by_snd (ecc n) (map ecc ns)) \<in> set (n # ns)"
    by (auto simp: ecc_def)
  then have "fst (min_by_snd (ecc n) (map ecc ns)) \<in> set (nodes sg)"
    by (simp only: ns)
  then have cin: "fst (min_by_snd (ecc n) (map ecc ns)) \<in> set best"
    by (simp only: sgn)
  have big: "card D \<le> card (set best)" if D: "D \<in> sccs g" for D
  proof -
    from D img obtain d where d: "d \<in> set (nx_scc g)" "D = set d" by blast
    from d(1) dist have dd: "distinct d" by (simp add: list_all_iff)
    from bm dist have db: "distinct best" by (simp add: list_all_iff)
    from d(1) have "length d \<le> length best"
      unfolding best_def cs by (intro max_by_len_ge) (simp add: cs[symmetric])
    with dd db d(2) show ?thesis by (simp add: distinct_card)
  qed
  from r cin bs big show ?thesis by blast
qed

theorem find_center_in_largest_scc_witness:
  "nodes three_cities \<noteq> [] \<and> \<not> strongly_connected three_cities \<and>
   nx_is_strongly_connected_ok ref_is_strongly_connected three_cities \<and>
   nx_strongly_connected_components_ok ref_strongly_connected_components three_cities \<and>
   (\<exists>c C. find_center ref_is_strongly_connected ref_strongly_connected_components
             ref_shortest_path_length three_cities = Inr (Some c) \<and>
          c \<in> C \<and> C \<in> sccs three_cities \<and> card C = 2) \<and>
   find_center ref_is_strongly_connected ref_strongly_connected_components
     ref_shortest_path_length three_cities = Inr (Some ''A'')"
proof -
  have ne: "nodes three_cities \<noteq> []" by (simp add: three_cities_nodes)
  have isc: "nx_is_strongly_connected_ok ref_is_strongly_connected three_cities"
    using three_cities_not_connected
    by (simp add: nx_is_strongly_connected_ok_def three_cities_ref_isc three_cities_nodes)
  have scc: "nx_strongly_connected_components_ok ref_strongly_connected_components three_cities"
    by (simp add: nx_strongly_connected_components_ok_def three_cities_ref_scc three_cities_sccs)
  from find_center_in_largest_scc[OF ne three_cities_not_connected isc scc,
      of ref_shortest_path_length]
  obtain c C where r: "find_center ref_is_strongly_connected ref_strongly_connected_components
             ref_shortest_path_length three_cities = Inr (Some c)"
    and c: "c \<in> C" and C: "C \<in> sccs three_cities"
    and big: "\<forall>D \<in> sccs three_cities. card D \<le> card C"
    by blast
  have "card {''A'', ''B''} \<le> card C"
    using big by (simp add: three_cities_sccs)
  moreover from C have "C = {''A'', ''B''} \<or> C = {''C''}" by (simp add: three_cities_sccs)
  ultimately have "card C = 2" by auto
  with ne three_cities_not_connected isc scc r c C three_cities_center show ?thesis by blast
qed

section \<open>Properties of the distances between all pairs\<close>

lemma fold_invariant:
  "P s \<Longrightarrow> (\<And>x s. P s \<Longrightarrow> P (f x s)) \<Longrightarrow> P (fold f xs s)"
  by (induction xs arbitrary: s) auto

lemma loops_invariant:
  assumes "P d0" and "\<And>w u v d. P d \<Longrightarrow> P (relax w u v d)"
  shows "P (floyd_warshall_loops ns d0)"
proof -
  have v: "P (fold (\<lambda>v d. relax w u v d) ns d)" if "P d" for w u d
    using that by (rule fold_invariant[where P = P]) (rule assms(2))
  have u: "P (fold (\<lambda>u d. fold (\<lambda>v d. relax w u v d) ns d) ns d)" if "P d" for w d
    using that by (rule fold_invariant[where P = P]) (rule v)
  show ?thesis
    unfolding floyd_warshall_loops_def
    using assms(1) by (rule fold_invariant[where P = P]) (rule u)
qed

lemma cell_add_finite: "cell_add a b \<noteq> Infinity \<Longrightarrow> a \<noteq> Infinity \<and> b \<noteq> Infinity"
  by (cases a; cases b) auto

lemma reachable_trans: "reachable g u w \<Longrightarrow> reachable g w v \<Longrightarrow> reachable g u v"
  by (auto simp: reachable_def)

lemma reachable_edge: "adj g (u, v) = Some a \<Longrightarrow> reachable g u v"
  by (auto simp: reachable_def edges_of_def has_edge_def)

lemma finite_reachable_init: "finite_reachable g (floyd_warshall_init g)"
  by (auto simp: finite_reachable_def floyd_warshall_init_def reachable_refl reachable_edge
      split: option.splits if_splits)

lemma finite_reachable_relax:
  assumes "finite_reachable g d"
  shows "finite_reachable g (relax w u v d)"
proof (cases "cell_less (cell_add (d (u, w)) (d (w, v))) (d (u, v))")
  case False
  with assms show ?thesis by (simp add: relax_def)
next
  case True
  then have "cell_add (d (u, w)) (d (w, v)) \<noteq> Infinity"
    by (cases "cell_add (d (u, w)) (d (w, v))") auto
  from cell_add_finite[OF this] assms have "reachable g u v"
    by (auto simp: finite_reachable_def intro: reachable_trans)
  with assms True show ?thesis
    by (auto simp: relax_def finite_reachable_def)
qed

lemma unreachable_infinite:
  "\<not> reachable g u v \<Longrightarrow> floyd_warshall_loops (nodes g) (floyd_warshall_init g) (u, v) = Infinity"
proof -
  have "finite_reachable g (floyd_warshall_loops (nodes g) (floyd_warshall_init g))"
    by (intro loops_invariant[where P = "finite_reachable g"] finite_reachable_init
          finite_reachable_relax)
  then show "\<not> reachable g u v \<Longrightarrow> ?thesis"
    by (auto simp: finite_reachable_def)
qed

lemma cell_add_nonneg:
  "\<not> cell_less a (Num 0) \<Longrightarrow> \<not> cell_less b (Num 0) \<Longrightarrow> \<not> cell_less (cell_add a b) (Num 0)"
  by (cases a; cases b) auto

lemma nonneg_zero_diag_init:
  assumes "nonneg_weights g"
  shows "nonneg_zero_diag (floyd_warshall_init g)"
proof -
  have w: "0 \<le> weight a" if "adj g (u, v) = Some a" for u v a
    using assms that by (simp add: nonneg_weights_def)
  have 1: "\<not> cell_less (floyd_warshall_init g (u, v)) (Num 0)" for u v
  proof (cases "adj g (u, v)")
    case None
    then show ?thesis by (simp add: floyd_warshall_init_def)
  next
    case (Some a)
    with w[OF Some] show ?thesis by (simp add: floyd_warshall_init_def)
  qed
  have 2: "floyd_warshall_init g (u, u) = Num 0" for u
  proof (cases "adj g (u, u)")
    case None
    then show ?thesis by (simp add: floyd_warshall_init_def)
  next
    case (Some a)
    with w[OF Some] show ?thesis by (simp add: floyd_warshall_init_def)
  qed
  from 1 2 show ?thesis by (simp add: nonneg_zero_diag_def)
qed

lemma nonneg_zero_diag_relax:
  assumes "nonneg_zero_diag d"
  shows "nonneg_zero_diag (relax w u v d)"
proof (cases "cell_less (cell_add (d (u, w)) (d (w, v))) (d (u, v))")
  case False
  with assms show ?thesis by (simp add: relax_def)
next
  case True
  let ?c = "cell_add (d (u, w)) (d (w, v))"
  from assms have nn: "\<And>x y. \<not> cell_less (d (x, y)) (Num 0)" and z: "\<And>x. d (x, x) = Num 0"
    by (simp_all add: nonneg_zero_diag_def)
  have c: "\<not> cell_less ?c (Num 0)"
    by (rule cell_add_nonneg) (rule nn)+
  have uv: "u \<noteq> v"
  proof
    assume "u = v"
    with True z[of v] c show False by simp
  qed
  have r: "relax w u v d = d((u, v) := ?c)"
    using True by (simp add: relax_def)
  have 1: "\<not> cell_less ((d((u, v) := ?c)) (x, y)) (Num 0)" for x y
    using nn[of x y] c by auto
  have 2: "(d((u, v) := ?c)) (x, x) = Num 0" for x
    using z[of x] uv by auto
  show ?thesis
    unfolding r nonneg_zero_diag_def using 1 2 by blast
qed

lemma nonneg_diagonal:
  "nonneg_weights g \<Longrightarrow> floyd_warshall_loops (nodes g) (floyd_warshall_init g) (u, u) = Num 0"
proof -
  assume "nonneg_weights g"
  then have "nonneg_zero_diag (floyd_warshall_loops (nodes g) (floyd_warshall_init g))"
    by (intro loops_invariant[where P = nonneg_zero_diag] nonneg_zero_diag_init
          nonneg_zero_diag_relax)
  then show ?thesis by (simp add: nonneg_zero_diag_def)
qed

lemma all_pairs_dom:
  "dom (all_pairs_shortest_paths g) = set (nodes g) \<times> set (nodes g)"
proof (rule set_eqI)
  fix e :: "node \<times> node"
  obtain u v where e: "e = (u, v)" by (cases e)
  show "e \<in> dom (all_pairs_shortest_paths g) \<longleftrightarrow> e \<in> set (nodes g) \<times> set (nodes g)"
    by (simp add: e all_pairs_shortest_paths_def nx_floyd_warshall_def dom_def)
qed

lemma three_cities_nonneg: "nonneg_weights three_cities"
  unfolding nonneg_weights_def
proof (intro allI impI)
  fix u v a assume "adj three_cities (u, v) = Some a"
  then have "a = \<lparr>normal = 1, rain = 2, snow = 3, storm = 4, weight = 1\<rparr>"
    by (simp add: three_cities_adj split: if_splits)
  then show "0 \<le> weight a" by simp
qed

text \<open>
  C5: the mapping returned by \<open>all_pairs_shortest_paths\<close> has an entry for every
  ordered pair of nodes; every pair without a directed path is mapped to infinity; and the
  entry of every pair \<open>(u, u)\<close> is 0, for the graphs of the data model, whose weights
  are not negative.
\<close>

theorem all_pairs_entries:
  "dom (all_pairs_shortest_paths g) = set (nodes g) \<times> set (nodes g) \<and>
   (\<forall>u \<in> set (nodes g). \<forall>v \<in> set (nodes g).
      \<not> reachable g u v \<longrightarrow> all_pairs_shortest_paths g (u, v) = Some Infinity) \<and>
   (nonneg_weights g \<longrightarrow>
      (\<forall>u \<in> set (nodes g). all_pairs_shortest_paths g (u, u) = Some (Num 0)))"
proof (intro conjI ballI impI)
  show "dom (all_pairs_shortest_paths g) = set (nodes g) \<times> set (nodes g)"
    by (rule all_pairs_dom)
next
  fix u v assume "u \<in> set (nodes g)" "v \<in> set (nodes g)" "\<not> reachable g u v"
  then show "all_pairs_shortest_paths g (u, v) = Some Infinity"
    by (simp add: all_pairs_shortest_paths_def nx_floyd_warshall_def unreachable_infinite)
next
  fix u assume "nonneg_weights g" "u \<in> set (nodes g)"
  then show "all_pairs_shortest_paths g (u, u) = Some (Num 0)"
    by (simp add: all_pairs_shortest_paths_def nx_floyd_warshall_def nonneg_diagonal)
qed

theorem all_pairs_entries_witness:
  "''C'' \<in> set (nodes three_cities) \<and> ''A'' \<in> set (nodes three_cities) \<and>
   \<not> reachable three_cities ''C'' ''A'' \<and> nonneg_weights three_cities \<and>
   dom (all_pairs_shortest_paths three_cities) = set (nodes three_cities) \<times> set (nodes three_cities) \<and>
   all_pairs_shortest_paths three_cities (''C'', ''A'') = Some Infinity \<and>
   all_pairs_shortest_paths three_cities (''A'', ''A'') = Some (Num 0)"
proof -
  have n: "''C'' \<in> set (nodes three_cities)" "''A'' \<in> set (nodes three_cities)"
    by (simp_all add: three_cities_nodes)
  have r: "\<not> reachable three_cities ''C'' ''A''"
    by (simp add: three_cities_from_C)
  from all_pairs_entries[of three_cities] n r three_cities_nonneg show ?thesis
    by blast
qed

section \<open>The queries do not change the graph\<close>

subsection \<open>The frame of a program\<close>

lemma graph_unchanged_refl: "graph_unchanged h h"
  by (simp add: graph_unchanged_def)

lemma graph_unchanged_trans:
  assumes a: "graph_unchanged h h1" and b: "graph_unchanged h1 h2"
  shows "graph_unchanged h h2"
proof -
  from a have t1: "take (length (digraphs h)) (digraphs h1) = digraphs h"
    and l1: "logisticas h1 = logisticas h"
    by (simp_all add: graph_unchanged_def)
  from b have t2: "take (length (digraphs h1)) (digraphs h2) = digraphs h1"
    and l2: "logisticas h2 = logisticas h1"
    by (simp_all add: graph_unchanged_def)
  from t1 have "length (take (length (digraphs h)) (digraphs h1)) = length (digraphs h)"
    by simp
  then have l: "length (digraphs h) \<le> length (digraphs h1)"
    by (simp add: min_def split: if_splits)
  have "take (length (digraphs h)) (digraphs h2)
      = take (length (digraphs h)) (take (length (digraphs h1)) (digraphs h2))"
    using l by (simp add: min_absorb1)
  also have "\<dots> = digraphs h" by (simp only: t2 t1)
  finally show ?thesis by (simp add: graph_unchanged_def l1 l2)
qed

text \<open>
  Under \<open>graph_unchanged\<close> every \<open>LogisticaGraph\<close> of the heap is, as a value, what it was:
  same nodes, same edges with their four profile values and active weights, same weather.
\<close>

lemma graph_unchanged_nth:
  assumes u: "graph_unchanged h h'" and r: "r < length (digraphs h)"
  shows "digraphs h' ! r = digraphs h ! r"
proof -
  from u have t: "take (length (digraphs h)) (digraphs h') = digraphs h"
    by (simp add: graph_unchanged_def)
  have "digraphs h ! r = take (length (digraphs h)) (digraphs h') ! r" by (simp only: t)
  also have "\<dots> = digraphs h' ! r" using r by simp
  finally show ?thesis by simp
qed

lemma graph_unchanged_logistica_at:
  assumes u: "graph_unchanged h h'" and r: "self_graph (logisticas h ! l) < length (digraphs h)"
  shows "logistica_at h' l = logistica_at h l"
proof -
  from u have l: "logisticas h' = logisticas h" by (simp add: graph_unchanged_def)
  from graph_unchanged_nth[OF u r] l show ?thesis by (simp add: logistica_at_def)
qed

lemma keeps_return: "keeps_heap (State_Monad.return x)"
  by (simp add: keeps_heap_def graph_unchanged_refl)

lemma keeps_bind:
  assumes m: "keeps_heap m" and f: "\<And>x. keeps_heap (f x)"
  shows "keeps_heap (State_Monad.bind m f)"
  unfolding keeps_heap_def
proof
  fix h
  obtain a h1 where r1: "run_state m h = (a, h1)" by (cases "run_state m h")
  obtain b h2 where r2: "run_state (f a) h1 = (b, h2)" by (cases "run_state (f a) h1")
  from m r1 have t1: "graph_unchanged h h1" by (auto simp: keeps_heap_def dest: spec[of _ h])
  from f[of a] r2 have t2: "graph_unchanged h1 h2"
    by (auto simp: keeps_heap_def dest: spec[of _ h1])
  from graph_unchanged_trans[OF t1 t2]
  show "graph_unchanged h (snd (run_state (State_Monad.bind m f) h))"
    by (simp add: r1 r2)
qed

subsection \<open>The operations on a graph\<close>

lemma keeps_get_networkx_graph: "keeps_heap (get_networkx_graph l)"
  by (simp add: keeps_heap_def get_networkx_graph_def graph_unchanged_refl)

lemma keeps_graph_nodes: "keeps_heap (graph_nodes r)"
  by (simp add: keeps_heap_def graph_nodes_def graph_unchanged_refl)

lemma keeps_graph_edge: "keeps_heap (graph_edge r u v)"
  by (simp add: keeps_heap_def graph_edge_def graph_unchanged_refl)

lemma keeps_graph_subgraph_copy: "keeps_heap (graph_subgraph_copy r c)"
  by (simp add: keeps_heap_def graph_subgraph_copy_def graph_unchanged_def)

lemma keeps_lift_lib1: "keeps_heap (lift_lib1 f r)"
  by (simp add: keeps_heap_def lift_lib1_def graph_unchanged_refl)

lemma keeps_lift_lib3: "keeps_heap (lift_lib3 f r s t)"
  by (simp add: keeps_heap_def lift_lib3_def graph_unchanged_refl)

text \<open>An assignment to the graph is seen: \<open>set_weather\<close> does not keep the heap.\<close>

lemma logistica_at_scenario: "logistica_at scenario_heap 0 = scenario"
  by (simp add: logistica_at_def scenario_heap_def)

lemma set_weather_prog_scenario:
  "snd (run_state (set_weather_prog 0 ''rain'') scenario_heap)
     = \<lparr>digraphs = [graph scenario_rain],
        logisticas = [\<lparr>self_graph = 0, self_current_weather = ''rain''\<rparr>]\<rparr>"
  by (simp add: set_weather_prog_def logistica_at_scenario scenario_rain_def[symmetric])
     (simp add: scenario_heap_def scenario_rain_def set_weather_def valid_weather_def)

lemma scenario_weather: "current_weather scenario = ''normal''"
  by (simp add: scenario_def scenario_file_def load_from_file_def load_record_def
      float_of_digits_simps init_graph_def Let_def)

lemma scenario_rain_differs: "graph scenario_rain \<noteq> graph scenario"
proof
  assume "graph scenario_rain = graph scenario"
  then have "adj (graph scenario_rain) (''A'', ''B'') = adj (graph scenario) (''A'', ''B'')"
    by simp
  then show False by (simp add: scenario_rain_adj scenario_adj)
qed

lemma set_weather_prog_changes:
  "digraphs (snd (run_state (set_weather_prog 0 ''rain'') scenario_heap))
     \<noteq> digraphs scenario_heap \<and>
   logisticas (snd (run_state (set_weather_prog 0 ''rain'') scenario_heap))
     \<noteq> logisticas scenario_heap"
  unfolding set_weather_prog_scenario
  by (simp add: scenario_heap_def scenario_rain_differs scenario_weather)

lemma set_weather_prog_not_kept: "\<not> keeps_heap (set_weather_prog 0 ''rain'')"
proof
  assume "keeps_heap (set_weather_prog 0 ''rain'')"
  then have "graph_unchanged scenario_heap
      (snd (run_state (set_weather_prog 0 ''rain'') scenario_heap))"
    by (simp add: keeps_heap_def)
  with set_weather_prog_changes show False by (simp add: graph_unchanged_def)
qed

subsection \<open>The bodies of the queries\<close>

lemma keeps_path_cost_prog: "keeps_heap (path_cost_prog r path is t)"
proof (induction "is" arbitrary: t)
  case Nil
  show ?case by (simp add: keeps_return)
next
  case (Cons i rest)
  show ?case
    unfolding path_cost_prog.simps
  proof (rule keeps_bind[OF keeps_graph_edge])
    fix e
    show "keeps_heap (case e of None \<Rightarrow> State_Monad.return (Inl KeyError)
            | Some a \<Rightarrow> path_cost_prog r path rest (t + weight a))"
      by (cases e) (simp_all add: keeps_return Cons.IH)
  qed
qed

lemma keeps_shortest_path_prog:
  assumes lib: "\<And>r s t. keeps_heap (nx_sp r s t)"
  shows "keeps_heap (shortest_path_prog nx_sp r start end')"
  unfolding shortest_path_prog_def
  by (intro keeps_bind keeps_graph_nodes)
     (auto intro!: keeps_bind keeps_return keeps_graph_nodes lib keeps_path_cost_prog
           split: option.splits)

lemma keeps_all_pairs_prog:
  assumes "\<And>r. keeps_heap (nx_fw r)"
  shows "keeps_heap (all_pairs_shortest_paths_prog nx_fw r)"
  unfolding all_pairs_shortest_paths_prog_def
  by (intro keeps_bind keeps_return assms)

lemma keeps_fill_row_prog: "keeps_heap (fill_row_prog r i u cols m)"
proof (induction cols arbitrary: m)
  case Nil
  show ?case by (simp add: keeps_return)
next
  case (Cons c cols)
  obtain j v where c: "c = (j, v)" by (cases c)
  show ?case
    unfolding c fill_row_prog.simps
    by (intro keeps_bind keeps_graph_edge Cons.IH)
qed

lemma keeps_fill_rows_prog: "keeps_heap (fill_rows_prog r cols rows m)"
proof (induction rows arbitrary: m)
  case Nil
  show ?case by (simp add: keeps_return)
next
  case (Cons c rows)
  obtain i u where c: "c = (i, u)" by (cases c)
  show ?case
    unfolding c fill_rows_prog.simps
    by (intro keeps_bind keeps_fill_row_prog Cons.IH)
qed

lemma keeps_get_adjacency_matrix_prog: "keeps_heap (get_adjacency_matrix_prog r)"
  unfolding get_adjacency_matrix_prog_def
  by (intro keeps_bind keeps_graph_nodes keeps_fill_rows_prog keeps_return)

lemma keeps_max_distance_prog:
  assumes "\<And>r s t. keeps_heap (nx_spl r s t)"
  shows "keeps_heap (max_distance_prog nx_spl sub node targets md)"
proof (induction targets arbitrary: md)
  case Nil
  show ?case by (simp add: keeps_return)
next
  case (Cons t targets)
  show ?case
  proof (cases "node \<noteq> t")
    case False
    then have "max_distance_prog nx_spl sub node (t # targets) md =
        max_distance_prog nx_spl sub node targets md"
      by simp
    then show ?thesis by (simp only: Cons.IH)
  next
    case True
    then have "max_distance_prog nx_spl sub node (t # targets) md =
        State_Monad.bind (nx_spl sub node t) (\<lambda>d. max_distance_prog nx_spl sub node targets
           (case d of Some distance \<Rightarrow> max md distance | None \<Rightarrow> md))"
      by simp
    then show ?thesis
      by (simp only:) (intro keeps_bind assms Cons.IH)
  qed
qed

lemma keeps_eccentricity_prog:
  assumes "\<And>r s t. keeps_heap (nx_spl r s t)"
  shows "keeps_heap (eccentricity_prog nx_spl sub ns)"
proof (induction ns)
  case Nil
  show ?case by (simp add: keeps_return)
next
  case (Cons n ns)
  show ?case
    unfolding eccentricity_prog.simps
    by (intro keeps_bind keeps_graph_nodes keeps_max_distance_prog assms Cons.IH keeps_return)
qed

lemma keeps_select_center_prog:
  assumes "\<And>r s t. keeps_heap (nx_spl r s t)"
  shows "keeps_heap (select_center_prog nx_spl sub)"
  unfolding select_center_prog_def
  by (intro keeps_bind keeps_graph_nodes keeps_eccentricity_prog assms keeps_return)

lemma keeps_find_center_prog:
  assumes isc: "\<And>r. keeps_heap (nx_isc r)" and scc: "\<And>r. keeps_heap (nx_scc r)"
    and spl: "\<And>r s t. keeps_heap (nx_spl r s t)"
  shows "keeps_heap (find_center_prog nx_isc nx_scc nx_spl r)"
  unfolding find_center_prog_def
proof (rule keeps_bind[OF isc])
  fix answer :: "bool option"
  show "keeps_heap (case answer of
            None \<Rightarrow> State_Monad.return (Inl NetworkXPointlessConcept)
          | Some is_connected \<Rightarrow>
              if \<not> is_connected then
                do { components \<leftarrow> nx_scc r;
                     case components of
                       [] \<Rightarrow> State_Monad.return (Inl ValueError)
                     | c # cs \<Rightarrow>
                         do { sub \<leftarrow> graph_subgraph_copy r (max_by_len c cs);
                              select_center_prog nx_spl sub } }
              else select_center_prog nx_spl r)"
  proof (cases answer)
    case None
    then show ?thesis by (simp add: keeps_return)
  next
    case (Some is_connected)
    show ?thesis
    proof (cases is_connected)
      case True
      with Some show ?thesis by (simp add: keeps_select_center_prog[OF spl])
    next
      case False
      have "keeps_heap (do { components \<leftarrow> nx_scc r;
                     case components of
                       [] \<Rightarrow> State_Monad.return (Inl ValueError)
                     | c # cs \<Rightarrow>
                         do { sub \<leftarrow> graph_subgraph_copy r (max_by_len c cs);
                              select_center_prog nx_spl sub } })"
      proof (rule keeps_bind[OF scc])
        fix components :: "node list list"
        show "keeps_heap (case components of
                       [] \<Rightarrow> State_Monad.return (Inl ValueError)
                     | c # cs \<Rightarrow>
                         do { sub \<leftarrow> graph_subgraph_copy r (max_by_len c cs);
                              select_center_prog nx_spl sub })"
          by (cases components)
             (auto intro!: keeps_return keeps_bind keeps_graph_subgraph_copy
                keeps_select_center_prog[OF spl])
      qed
      with Some False show ?thesis by simp
    qed
  qed
qed

subsection \<open>The programs compute what the functions compute\<close>

lemma run_graph_nodes: "run_state (graph_nodes r) h = (nodes (digraphs h ! r), h)"
  by (simp add: graph_nodes_def)

lemma run_graph_edge: "run_state (graph_edge r u v) h = (adj (digraphs h ! r) (u, v), h)"
  by (simp add: graph_edge_def)

lemma run_lift_lib1: "run_state (lift_lib1 f r) h = (f (digraphs h ! r), h)"
  by (simp add: lift_lib1_def)

lemma run_lift_lib3: "run_state (lift_lib3 f r s t) h = (f (digraphs h ! r) s t, h)"
  by (simp add: lift_lib3_def)

lemma run_path_cost_prog:
  "i \<le> length path - 1 \<Longrightarrow>
   run_state (path_cost_prog r path [i..<length path - 1] t) h
     = (path_cost_loop (digraphs h ! r) path i t, h)"
proof (induction "length path - 1 - i" arbitrary: i t)
  case 0
  then have "i = length path - 1" by simp
  then show ?case by (simp add: path_cost_loop.simps)
next
  case (Suc k)
  then have lt: "i < length path - 1" by simp
  then have u: "[i..<length path - 1] = i # [Suc i..<length path - 1]"
    by (simp add: upt_conv_Cons)
  show ?case
  proof (cases "adj (digraphs h ! r) (path ! i, path ! (i + 1))")
    case None
    with lt show ?thesis
      by (subst u) (simp add: run_graph_edge path_cost_loop.simps[of _ _ i] edge_weight_def)
  next
    case (Some a)
    have k: "k = length path - 1 - Suc i" using Suc.hyps(2) by simp
    have ih: "run_state (path_cost_prog r path [Suc i..<length path - 1] (t + weight a)) h
        = (path_cost_loop (digraphs h ! r) path (Suc i) (t + weight a), h)"
      using Suc.hyps(1)[OF k] lt by simp
    from Some lt ih show ?thesis
      by (subst u) (simp add: run_graph_edge path_cost_loop.simps[of _ _ i] edge_weight_def)
  qed
qed

lemma run_path_cost_prog0:
  "run_state (path_cost_prog r path [0..<length path - Suc 0] 0) h
     = (path_cost_loop (digraphs h ! r) path 0 0, h)"
  using run_path_cost_prog[of 0 path r 0 h] by simp

lemma run_shortest_path_prog:
  "run_state (shortest_path_prog (lift_lib3 nx_sp) r start end') h
     = (shortest_path nx_sp (digraphs h ! r) start end', h)"
  by (simp add: shortest_path_prog_def shortest_path_def run_graph_nodes run_lift_lib3
      run_path_cost_prog0 split: option.splits sum.splits)

lemma run_all_pairs_prog:
  "run_state (all_pairs_shortest_paths_prog (lift_lib1 nx_floyd_warshall) r) h
     = (all_pairs_shortest_paths (digraphs h ! r), h)"
  by (simp add: all_pairs_shortest_paths_prog_def all_pairs_shortest_paths_def run_lift_lib1)

lemma run_fill_row_prog:
  "run_state (fill_row_prog r i u cols m) h = (fill_row (digraphs h ! r) i u cols m, h)"
proof (induction cols arbitrary: m)
  case Nil
  show ?case by simp
next
  case (Cons c cols)
  obtain j v where c: "c = (j, v)" by (cases c)
  show ?case by (simp add: c run_graph_edge Cons.IH)
qed

lemma run_fill_rows_prog:
  "run_state (fill_rows_prog r cols rows m) h = (fill_rows (digraphs h ! r) cols rows m, h)"
proof (induction rows arbitrary: m)
  case Nil
  show ?case by simp
next
  case (Cons c rows)
  obtain i u where c: "c = (i, u)" by (cases c)
  show ?case by (simp add: c run_fill_row_prog Cons.IH)
qed

lemma run_get_adjacency_matrix_prog:
  "run_state (get_adjacency_matrix_prog r) h = (get_adjacency_matrix (digraphs h ! r), h)"
  by (simp add: get_adjacency_matrix_prog_def get_adjacency_matrix_def run_graph_nodes
      run_fill_rows_prog Let_def)

lemma run_max_distance_prog:
  "run_state (max_distance_prog (lift_lib3 nx_spl) sub node targets md) h
     = (fold (\<lambda>target max_distance.
                if node \<noteq> target then
                  (case nx_spl (digraphs h ! sub) node target of
                     Some distance \<Rightarrow> max max_distance distance
                   | None \<Rightarrow> max_distance)
                else max_distance) targets md, h)"
proof (induction targets arbitrary: md)
  case Nil
  show ?case by simp
next
  case (Cons t targets)
  show ?case
  proof (cases "node \<noteq> t")
    case True
    then show ?thesis by (simp add: run_lift_lib3 Cons.IH)
  next
    case False
    then have "max_distance_prog (lift_lib3 nx_spl) sub node (t # targets) md =
        max_distance_prog (lift_lib3 nx_spl) sub node targets md"
      by simp
    with False Cons.IH[of md] show ?thesis by simp
  qed
qed

lemma run_eccentricity_prog:
  "run_state (eccentricity_prog (lift_lib3 nx_spl) sub ns) h
     = (map (\<lambda>node. (node, eccentricity_of nx_spl (digraphs h ! sub) node)) ns, h)"
  by (induction ns)
     (simp_all add: run_graph_nodes run_max_distance_prog eccentricity_of_def)

lemma run_select_center_prog:
  "run_state (select_center_prog (lift_lib3 nx_spl) sub) h
     = (select_center nx_spl (digraphs h ! sub), h)"
  by (simp add: select_center_prog_def select_center_def run_graph_nodes run_eccentricity_prog)

lemma run_find_center_prog:
  "run_state (find_center_prog (lift_lib1 nx_isc) (lift_lib1 nx_scc) (lift_lib3 nx_spl) r) h
     = (find_center nx_isc nx_scc nx_spl (digraphs h ! r),
        case nx_isc (digraphs h ! r) of
          None \<Rightarrow> h
        | Some is_connected \<Rightarrow>
            if is_connected then h
            else (case nx_scc (digraphs h ! r) of
                    [] \<Rightarrow> h
                  | c # cs \<Rightarrow>
                      h\<lparr>digraphs := digraphs h
                          @ [subgraph_copy (digraphs h ! r) (max_by_len c cs)]\<rparr>))"
  by (simp add: find_center_prog_def find_center_def run_lift_lib1 run_select_center_prog
      graph_subgraph_copy_def split: option.splits list.splits)

subsection \<open>The claim\<close>

lemma three_heap_find_center:
  "run_state (find_center_prog (lift_lib1 ref_is_strongly_connected)
       (lift_lib1 ref_strongly_connected_components) (lift_lib3 ref_shortest_path_length) 0)
     three_heap
   = (Inr (Some ''A''),
      three_heap\<lparr>digraphs := [three_cities, subgraph_copy three_cities [''A'', ''B'']]\<rparr>)"
proof -
  have d: "digraphs three_heap ! 0 = three_cities" "digraphs three_heap = [three_cities]"
    by (simp_all add: three_heap_def)
  show ?thesis
    unfolding run_find_center_prog d
    by (simp add: three_cities_center three_cities_ref_isc three_cities_ref_scc)
qed

text \<open>
  C10: let each library routine leave the heap as \<open>graph_unchanged\<close> allows. Then after
  \<open>shortest_path\<close>, \<open>all_pairs_shortest_paths\<close>, \<open>find_center\<close> or \<open>get_adjacency_matrix\<close>,
  called on any graph reference in any heap, every graph object and every \<open>LogisticaGraph\<close>
  object that existed before the call is what it was, so every \<open>LogisticaGraph\<close> has its
  nodes, its edges with their four profile values and their active weights, and its weather
  selection; \<open>find_center\<close> at most allocates the copy of a subgraph.
\<close>

theorem queries_leave_graph_unchanged:
  assumes sp: "\<And>r s t. keeps_heap (nx_shortest_path r s t)"
    and fw: "\<And>r. keeps_heap (nx_floyd_warshall_routine r)"
    and isc: "\<And>r. keeps_heap (nx_is_strongly_connected r)"
    and scc: "\<And>r. keeps_heap (nx_strongly_connected_components r)"
    and spl: "\<And>r s t. keeps_heap (nx_shortest_path_length r s t)"
    and q: "h' \<in> {snd (run_state (shortest_path_prog nx_shortest_path r start end') h),
                  snd (run_state (all_pairs_shortest_paths_prog nx_floyd_warshall_routine r) h),
                  snd (run_state (find_center_prog nx_is_strongly_connected
                         nx_strongly_connected_components nx_shortest_path_length r) h),
                  snd (run_state (get_adjacency_matrix_prog r) h)}"
  shows "graph_unchanged h h' \<and>
         (\<forall>l. self_graph (logisticas h ! l) < length (digraphs h) \<longrightarrow>
              logistica_at h' l = logistica_at h l)"
proof -
  from q consider
      "h' = snd (run_state (shortest_path_prog nx_shortest_path r start end') h)"
    | "h' = snd (run_state (all_pairs_shortest_paths_prog nx_floyd_warshall_routine r) h)"
    | "h' = snd (run_state (find_center_prog nx_is_strongly_connected
                         nx_strongly_connected_components nx_shortest_path_length r) h)"
    | "h' = snd (run_state (get_adjacency_matrix_prog r) h)"
    by blast
  then have u: "graph_unchanged h h'"
  proof cases
    case 1
    with keeps_shortest_path_prog[of nx_shortest_path r start end', OF sp] show ?thesis
      by (simp add: keeps_heap_def)
  next
    case 2
    with keeps_all_pairs_prog[of nx_floyd_warshall_routine r, OF fw] show ?thesis
      by (simp add: keeps_heap_def)
  next
    case 3
    with keeps_find_center_prog[of nx_is_strongly_connected nx_strongly_connected_components
        nx_shortest_path_length r, OF isc scc spl]
    show ?thesis by (simp add: keeps_heap_def)
  next
    case 4
    with keeps_get_adjacency_matrix_prog[of r] show ?thesis by (simp add: keeps_heap_def)
  qed
  with graph_unchanged_logistica_at[OF u] show ?thesis by blast
qed

theorem queries_leave_graph_unchanged_witness:
  "snd (run_state (find_center_prog (lift_lib1 ref_is_strongly_connected)
          (lift_lib1 ref_strongly_connected_components) (lift_lib3 ref_shortest_path_length) 0)
        three_heap)
     = three_heap\<lparr>digraphs := [three_cities, subgraph_copy three_cities [''A'', ''B'']]\<rparr> \<and>
   graph_unchanged three_heap
     (three_heap\<lparr>digraphs := [three_cities, subgraph_copy three_cities [''A'', ''B'']]\<rparr>) \<and>
   logistica_at
     (three_heap\<lparr>digraphs := [three_cities, subgraph_copy three_cities [''A'', ''B'']]\<rparr>) 0
     = \<lparr>graph = three_cities, current_weather = ''normal''\<rparr>"
proof -
  let ?h = "three_heap\<lparr>digraphs := [three_cities, subgraph_copy three_cities [''A'', ''B'']]\<rparr>"
  have r: "snd (run_state (find_center_prog (lift_lib1 ref_is_strongly_connected)
          (lift_lib1 ref_strongly_connected_components) (lift_lib3 ref_shortest_path_length) 0)
        three_heap) = ?h"
    by (simp add: three_heap_find_center)
  have w: "self_graph (logisticas three_heap ! 0) < length (digraphs three_heap)"
    by (simp add: three_heap_def)
  have v: "logistica_at three_heap 0 = \<lparr>graph = three_cities, current_weather = ''normal''\<rparr>"
    by (simp add: logistica_at_def three_heap_def)
  from queries_leave_graph_unchanged[of "lift_lib3 ref_shortest_path" "lift_lib1 nx_floyd_warshall"
      "lift_lib1 ref_is_strongly_connected" "lift_lib1 ref_strongly_connected_components"
      "lift_lib3 ref_shortest_path_length" ?h 0 "''A''" "''B''" three_heap,
      OF keeps_lift_lib3 keeps_lift_lib1 keeps_lift_lib1 keeps_lift_lib1 keeps_lift_lib3]
    r w v
  show ?thesis by simp
qed

end
